theory Spec2Isabelle
  imports Complex_Main "HOL-Library.Monad_Syntax" "HOL-Library.Signed_Division"
    "HOL-Library.Log_Nat"
begin

section \<open>The base integer type\<close>

text \<open>
  \<^verbatim>\<open>rational<type>\<close> is a template over an integral \<^verbatim>\<open>type\<close>. A base type is described by
  its signedness, its width and what an out-of-range arithmetic result does: C++ unsigned
  types reduce modulo \<open>2 ^ bits\<close> (\<open>wraps\<close>), for signed types the behaviour is undefined.
  Values of the type are the integers of its range. Types below the rank of \<^verbatim>\<open>int\<close>, whose
  operands are promoted, are not covered.
\<close>

record itype =
  is_signed :: bool
  bits :: nat
  wraps :: bool

definition int_t :: itype where
  "int_t = \<lparr>is_signed = True, bits = 32, wraps = False\<rparr>"

definition unsigned_t :: itype where
  "unsigned_t = \<lparr>is_signed = False, bits = 32, wraps = True\<rparr>"

definition long_long_t :: itype where
  "long_long_t = \<lparr>is_signed = True, bits = 64, wraps = False\<rparr>"

text \<open>\<^verbatim>\<open>unsigned __int128\<close>, an integral type where the compiler's extensions are on.\<close>

definition uint128_t :: itype where
  "uint128_t = \<lparr>is_signed = False, bits = 128, wraps = True\<rparr>"

text \<open>The same type with every out-of-range result left without a value: the executions
  in which no arithmetic result leaves the range.\<close>

definition no_wrap :: "itype \<Rightarrow> itype" where
  "no_wrap T = T\<lparr>wraps := False\<rparr>"

definition tmin :: "itype \<Rightarrow> int" where
  "tmin T = (if is_signed T then - (2 ^ (bits T - 1)) else 0)"

definition tmax :: "itype \<Rightarrow> int" where
  "tmax T = (if is_signed T then 2 ^ (bits T - 1) - 1 else 2 ^ bits T - 1)"

definition in_range :: "itype \<Rightarrow> int \<Rightarrow> bool" where
  "in_range T x = (tmin T \<le> x \<and> x \<le> tmax T)"

definition wrap :: "itype \<Rightarrow> int \<Rightarrow> int" where
  "wrap T x = (if is_signed T
     then (x + 2 ^ (bits T - 1)) mod 2 ^ bits T - 2 ^ (bits T - 1)
     else x mod 2 ^ bits T)"

text \<open>The value of an arithmetic expression whose exact result is \<open>x\<close>; \<open>None\<close> is
  undefined behaviour.\<close>

definition arith :: "itype \<Rightarrow> int \<Rightarrow> int option" where
  "arith T x = (if in_range T x then Some x else if wraps T then Some (wrap T x) else None)"

definition add :: "itype \<Rightarrow> int \<Rightarrow> int \<Rightarrow> int option" where
  "add T a b = arith T (a + b)"

definition sub :: "itype \<Rightarrow> int \<Rightarrow> int \<Rightarrow> int option" where
  "sub T a b = arith T (a - b)"

definition mul :: "itype \<Rightarrow> int \<Rightarrow> int \<Rightarrow> int option" where
  "mul T a b = arith T (a * b)"

definition neg :: "itype \<Rightarrow> int \<Rightarrow> int option" where
  "neg T a = arith T (- a)"

text \<open>\<^verbatim>\<open>a / b\<close> truncates towards zero; a zero divisor and an unrepresentable quotient are
  undefined.\<close>

definition cdiv :: "itype \<Rightarrow> int \<Rightarrow> int \<Rightarrow> int option" where
  "cdiv T a b = (if b = 0 \<or> \<not> in_range T (a sdiv b) then None else Some (a sdiv b))"

text \<open>\<^verbatim>\<open>std::gcd(m, n)\<close>: the greatest common divisor of \<open>\<bar>m\<bar>\<close> and \<open>\<bar>n\<bar>\<close>, undefined when
  one of the absolute values is not a value of the type.\<close>

definition std_gcd :: "itype \<Rightarrow> int \<Rightarrow> int \<Rightarrow> int option" where
  "std_gcd T m n = (if in_range T \<bar>m\<bar> \<and> in_range T \<bar>n\<bar> then Some (gcd m n) else None)"

section \<open>The class \<^verbatim>\<open>rational\<close>\<close>

text \<open>The members \<^verbatim>\<open>numerator_\<close> and \<^verbatim>\<open>denominator_\<close>, under the names of their getters.\<close>

record rational =
  numerator :: int
  denominator :: int

text \<open>Canonical form, as the class comment has it: numerator and denominator co-prime,
  denominator greater than zero.\<close>

definition canonical :: "rational \<Rightarrow> bool" where
  "canonical r = (0 < denominator r \<and> gcd \<bar>numerator r\<bar> (denominator r) = 1)"

text \<open>How a call ends: it returns (for a mutating member, with the new state of the
  object), it throws \<^verbatim>\<open>std::domain_error\<close> (the record holds the members at the throw; for a
  constructor they are those of the object that never came to be), or its behaviour is
  undefined.\<close>

datatype domain_error =
    Denominator_zero
  | Division_by_zero
  | Value_infinite
  | Value_too_small

datatype outcome =
    Returned rational
  | Throws domain_error rational
  | Undefined

definition finish :: "rational option \<Rightarrow> outcome" where
  "finish x = (case x of None \<Rightarrow> Undefined | Some r \<Rightarrow> Returned r)"

definition canonize :: "itype \<Rightarrow> rational \<Rightarrow> rational option" where
  "canonize T r = do {
     g \<leftarrow> std_gcd T (numerator r) (denominator r);
     n \<leftarrow> cdiv T (numerator r) g;
     d \<leftarrow> cdiv T (denominator r) g;
     if 0 > d
     then do {
       n' \<leftarrow> neg T n;
       d' \<leftarrow> neg T d;
       Some \<lparr>numerator = n', denominator = d'\<rparr> }
     else Some \<lparr>numerator = n, denominator = d\<rparr> }"

subsection \<open>Constructors and assignment\<close>

definition rational_ctor :: "itype \<Rightarrow> int \<Rightarrow> int \<Rightarrow> outcome" where
  "rational_ctor T n d =
     (if d = 0
      then Throws Denominator_zero \<lparr>numerator = n, denominator = d\<rparr>
      else finish (canonize T \<lparr>numerator = n, denominator = d\<rparr>))"

definition operator_assign_int :: "int \<Rightarrow> rational \<Rightarrow> outcome" where
  "operator_assign_int that r = Returned \<lparr>numerator = that, denominator = 1\<rparr>"

subsection \<open>Comparison\<close>

definition operator_eq :: "rational \<Rightarrow> rational \<Rightarrow> bool" where
  "operator_eq r that = (numerator r = numerator that \<and> denominator r = denominator that)"

definition operator_eq_int :: "rational \<Rightarrow> int \<Rightarrow> bool" where
  "operator_eq_int r that = (numerator r = that \<and> denominator r = 1)"

datatype strong_ordering = Ord_less | Ord_equal | Ord_greater

definition three_way :: "int \<Rightarrow> int \<Rightarrow> strong_ordering" where
  "three_way x y = (if x < y then Ord_less else if x = y then Ord_equal else Ord_greater)"

definition operator_spaceship :: "itype \<Rightarrow> rational \<Rightarrow> rational \<Rightarrow> strong_ordering option"
  where
  "operator_spaceship T r that =
     (if operator_eq r that then Some Ord_equal
      else do {
        x \<leftarrow> mul T (numerator r) (denominator that);
        y \<leftarrow> mul T (denominator r) (numerator that);
        Some (three_way x y) })"

definition operator_spaceship_int :: "itype \<Rightarrow> rational \<Rightarrow> int \<Rightarrow> strong_ordering option"
  where
  "operator_spaceship_int T r that =
     (if operator_eq_int r that then Some Ord_equal
      else do {
        y \<leftarrow> mul T (denominator r) that;
        Some (three_way (numerator r) y) })"

text \<open>The relational operators are the ones the language rewrites to the three-way
  comparison: \<^verbatim>\<open>a < b\<close> is \<^verbatim>\<open>(a <=> b) < 0\<close>, \<^verbatim>\<open>a > b\<close> is \<^verbatim>\<open>(a <=> b) > 0\<close>.\<close>

definition operator_less :: "itype \<Rightarrow> rational \<Rightarrow> rational \<Rightarrow> bool option" where
  "operator_less T r that = map_option (\<lambda>c. c = Ord_less) (operator_spaceship T r that)"

definition operator_greater :: "itype \<Rightarrow> rational \<Rightarrow> rational \<Rightarrow> bool option" where
  "operator_greater T r that = map_option (\<lambda>c. c = Ord_greater) (operator_spaceship T r that)"

subsection \<open>Unary operators\<close>

definition operator_plus :: "rational \<Rightarrow> outcome" where
  "operator_plus r = Returned r"

definition operator_minus :: "itype \<Rightarrow> rational \<Rightarrow> outcome" where
  "operator_minus T r =
     (case neg T (numerator r) of
        None \<Rightarrow> Undefined
      | Some n \<Rightarrow> rational_ctor T n (denominator r))"

definition operator_invert :: "itype \<Rightarrow> rational \<Rightarrow> outcome" where
  "operator_invert T r = rational_ctor T (denominator r) (numerator r)"

subsection \<open>Arithmetic assignment operators\<close>

text \<open>
  Each takes the right operand, then the object, and gives the object's new state. The
  operand is passed by reference and may be the object itself. In \<^verbatim>\<open>+=\<close>, \<^verbatim>\<open>-=\<close> and \<^verbatim>\<open>*=\<close>
  each of the two members is written only after the last read of it through the operand, so
  that these three see the operand as it was at the call, the same object or not. \<^verbatim>\<open>/=\<close>
  reads \<^verbatim>\<open>that.numerator_\<close> after it has written \<^verbatim>\<open>numerator_\<close>: its operand is a reference,
  read in the state of the moment.
\<close>

datatype operand_ref = This_object | Other_object rational

text \<open>What a read through the reference finds when the object is in state \<open>r\<close>.\<close>

fun deref :: "operand_ref \<Rightarrow> rational \<Rightarrow> rational" where
  "deref This_object r = r"
| "deref (Other_object x) r = x"

definition operator_add_assign :: "itype \<Rightarrow> rational \<Rightarrow> rational \<Rightarrow> outcome" where
  "operator_add_assign T that r = finish (do {
     x \<leftarrow> mul T (numerator r) (denominator that);
     y \<leftarrow> mul T (denominator r) (numerator that);
     n \<leftarrow> add T x y;
     d \<leftarrow> mul T (denominator r) (denominator that);
     canonize T \<lparr>numerator = n, denominator = d\<rparr> })"

definition operator_sub_assign :: "itype \<Rightarrow> rational \<Rightarrow> rational \<Rightarrow> outcome" where
  "operator_sub_assign T that r = finish (do {
     x \<leftarrow> mul T (numerator r) (denominator that);
     y \<leftarrow> mul T (denominator r) (numerator that);
     n \<leftarrow> sub T x y;
     d \<leftarrow> mul T (denominator r) (denominator that);
     canonize T \<lparr>numerator = n, denominator = d\<rparr> })"

definition operator_mul_assign :: "itype \<Rightarrow> rational \<Rightarrow> rational \<Rightarrow> outcome" where
  "operator_mul_assign T that r = finish (do {
     n \<leftarrow> mul T (numerator r) (numerator that);
     d \<leftarrow> mul T (denominator r) (denominator that);
     canonize T \<lparr>numerator = n, denominator = d\<rparr> })"

definition operator_div_assign :: "itype \<Rightarrow> operand_ref \<Rightarrow> rational \<Rightarrow> outcome" where
  "operator_div_assign T that r =
     (if numerator (deref that r) = 0 then Throws Division_by_zero r
      else finish (do {
        n \<leftarrow> mul T (numerator r) (denominator (deref that r));
        let r1 = r\<lparr>numerator := n\<rparr>;
        d \<leftarrow> mul T (denominator r1) (numerator (deref that r1));
        canonize T (r1\<lparr>denominator := d\<rparr>) }))"

definition operator_add_assign_int :: "itype \<Rightarrow> int \<Rightarrow> rational \<Rightarrow> outcome" where
  "operator_add_assign_int T that r = finish (do {
     x \<leftarrow> mul T that (denominator r);
     n \<leftarrow> add T (numerator r) x;
     Some (r\<lparr>numerator := n\<rparr>) })"

definition operator_sub_assign_int :: "itype \<Rightarrow> int \<Rightarrow> rational \<Rightarrow> outcome" where
  "operator_sub_assign_int T that r = finish (do {
     x \<leftarrow> mul T that (denominator r);
     n \<leftarrow> sub T (numerator r) x;
     Some (r\<lparr>numerator := n\<rparr>) })"

definition operator_mul_assign_int :: "itype \<Rightarrow> int \<Rightarrow> rational \<Rightarrow> outcome" where
  "operator_mul_assign_int T that r = finish (do {
     n \<leftarrow> mul T (numerator r) that;
     canonize T (r\<lparr>numerator := n\<rparr>) })"

definition operator_div_assign_int :: "itype \<Rightarrow> int \<Rightarrow> rational \<Rightarrow> outcome" where
  "operator_div_assign_int T that r =
     (if that = 0 then Throws Division_by_zero r
      else finish (do {
        d \<leftarrow> mul T (denominator r) that;
        canonize T (r\<lparr>denominator := d\<rparr>) }))"

subsection \<open>Increment and decrement\<close>

definition operator_pre_inc :: "itype \<Rightarrow> rational \<Rightarrow> outcome" where
  "operator_pre_inc T r = finish (do {
     n \<leftarrow> add T (numerator r) (denominator r);
     Some (r\<lparr>numerator := n\<rparr>) })"

definition operator_pre_dec :: "itype \<Rightarrow> rational \<Rightarrow> outcome" where
  "operator_pre_dec T r = finish (do {
     n \<leftarrow> sub T (numerator r) (denominator r);
     Some (r\<lparr>numerator := n\<rparr>) })"

text \<open>The postfix forms return a copy of the old value; the outcome given here is the
  state of the object, which is what the prefix form leaves.\<close>

definition operator_post_inc :: "itype \<Rightarrow> rational \<Rightarrow> rational \<times> outcome" where
  "operator_post_inc T r = (let result = r in (result, operator_pre_inc T r))"

definition operator_post_dec :: "itype \<Rightarrow> rational \<Rightarrow> rational \<times> outcome" where
  "operator_post_dec T r = (let result = r in (result, operator_pre_dec T r))"

subsection \<open>Mutators\<close>

definition numerator_set :: "itype \<Rightarrow> int \<Rightarrow> rational \<Rightarrow> outcome" where
  "numerator_set T v r = finish (canonize T (r\<lparr>numerator := v\<rparr>))"

definition denominator_set :: "itype \<Rightarrow> int \<Rightarrow> rational \<Rightarrow> outcome" where
  "denominator_set T v r =
     (if v = 0 then Throws Denominator_zero r
      else finish (canonize T (r\<lparr>denominator := v\<rparr>)))"

definition assign :: "itype \<Rightarrow> int \<Rightarrow> int \<Rightarrow> rational \<Rightarrow> outcome" where
  "assign T n d r =
     (if d = 0 then Throws Denominator_zero r
      else finish (canonize T \<lparr>numerator = n, denominator = d\<rparr>))"

subsection \<open>Assignment from a floating-point value\<close>

text \<open>
  The floating-point type \<^verbatim>\<open>that_type\<close> is a binary format of IEC 60559, given by three
  constants of \<^verbatim>\<open>std::numeric_limits\<close>. A value of it enters the code through what
  \<^verbatim>\<open>std::isfinite\<close> and \<^verbatim>\<open>std::frexp\<close> say about it: \<open>Finite m e\<close> is the finite value, other than
  negative zero, whose \<^verbatim>\<open>frexp\<close> significand, scaled by \<open>2 ^ digits\<close>, is the integer \<open>m\<close> and
  whose \<^verbatim>\<open>frexp\<close> exponent is \<open>e\<close>, that is the value \<open>m * 2 ^ (e - digits)\<close>; zero is
  \<open>Finite 0 0\<close>. The scaling is exact, so no rounding is involved. \<open>Negative_zero\<close> is \<open>-0.0\<close>,
  the one finite value that its number does not determine.
\<close>

record fformat =
  digits :: nat
  min_exponent :: int
  max_exponent :: int

definition float_t :: fformat where
  "float_t = \<lparr>digits = 24, min_exponent = - 125, max_exponent = 128\<rparr>"

definition double_t :: fformat where
  "double_t = \<lparr>digits = 53, min_exponent = - 1021, max_exponent = 1024\<rparr>"

definition float16_t :: fformat where
  "float16_t = \<lparr>digits = 11, min_exponent = - 13, max_exponent = 16\<rparr>"

datatype fvalue = Not_finite | Negative_zero | Finite int int

text \<open>The number a finite floating-point value stands for: \<open>m * 2 ^ (e - digits)\<close>.\<close>

definition fvalue_of :: "fformat \<Rightarrow> fvalue \<Rightarrow> rat option" where
  "fvalue_of F v =
     (case v of
        Not_finite \<Rightarrow> None
      | Negative_zero \<Rightarrow> Some 0
      | Finite m e \<Rightarrow>
          (let k = e - int (digits F)
           in if 0 \<le> k then Some (of_int m * 2 ^ nat k) else Some (of_int m / 2 ^ nat (- k))))"

text \<open>The values of the format. The significand that \<^verbatim>\<open>frexp\<close> returns for a value other than
  zero lies in \<open>[1/2, 1)\<close>, so \<open>m\<close> has exactly \<open>digits\<close> binary digits; the exponent is at most
  \<open>max_exponent\<close>; below \<open>min_exponent\<close> the value is subnormal, a multiple of
  \<open>2 ^ (min_exponent - digits)\<close>.\<close>

definition is_value :: "fformat \<Rightarrow> fvalue \<Rightarrow> bool" where
  "is_value F v =
     (case v of
        Not_finite \<Rightarrow> True
      | Negative_zero \<Rightarrow> True
      | Finite m e \<Rightarrow>
          (m = 0 \<and> e = 0) \<or>
          (2 ^ (digits F - 1) \<le> \<bar>m\<bar> \<and> \<bar>m\<bar> < 2 ^ digits F \<and> e \<le> max_exponent F \<and>
           (min_exponent F \<le> e \<or> 2 ^ nat (min_exponent F - e) dvd m)))"

text \<open>Conversion of an integral floating-point value to \<^verbatim>\<open>type\<close>: undefined out of range.\<close>

definition fp_to_type :: "itype \<Rightarrow> int \<Rightarrow> int option" where
  "fp_to_type T x = (if in_range T x then Some x else None)"

text \<open>\<^verbatim>\<open>static_cast<type>(std::exp2(k))\<close> for an \<^verbatim>\<open>int\<close> \<open>k\<close>: \<^verbatim>\<open>std::exp2\<close> computes in
  \<^verbatim>\<open>double\<close>, where \<open>2 ^ k\<close> is infinite from \<open>k = 1024\<close> on.\<close>

definition exp2_cast :: "itype \<Rightarrow> int \<Rightarrow> int option" where
  "exp2_cast T k =
     (if k < 0 then Some 0
      else if k < 1024 \<and> in_range T (2 ^ nat k) then Some (2 ^ nat k)
      else None)"

text \<open>The function after the test for a finite value, on what \<^verbatim>\<open>frexp\<close> has returned: the
  scaled significand \<open>m\<close> and the exponent \<open>e\<close>.\<close>

definition assign_finite :: "itype \<Rightarrow> fformat \<Rightarrow> int \<Rightarrow> int \<Rightarrow> rational \<Rightarrow> outcome" where
  "assign_finite T F m e r =
     (case fp_to_type T m of
        None \<Rightarrow> Undefined
      | Some n0 \<Rightarrow>
         (let exponent = e - int (digits F) in
          if exponent > 0 then
            (case do { c \<leftarrow> exp2_cast T exponent; mul T n0 c } of
               None \<Rightarrow> Undefined
             | Some n \<Rightarrow> assign T n 1 \<lparr>numerator = n, denominator = 1\<rparr>)
          else if exponent < 0 then
            (let exponent = - exponent in
             if exponent \<ge> max_exponent F - 1 then
               (case do {
                    c \<leftarrow> exp2_cast T (exponent - (max_exponent F - 1));
                    n \<leftarrow> cdiv T n0 c;
                    c' \<leftarrow> exp2_cast T (max_exponent F - 1);
                    d \<leftarrow> mul T 1 c';
                    Some \<lparr>numerator = n, denominator = d\<rparr> } of
                  None \<Rightarrow> Undefined
                | Some s \<Rightarrow>
                   if numerator s = 0 then Throws Value_too_small s
                   else assign T (numerator s) (denominator s) s)
             else
               (case do { c \<leftarrow> exp2_cast T exponent; mul T 1 c } of
                  None \<Rightarrow> Undefined
                | Some d \<Rightarrow> assign T n0 d \<lparr>numerator = n0, denominator = d\<rparr>))
          else assign T n0 1 \<lparr>numerator = n0, denominator = 1\<rparr>))"

text \<open>For negative zero \<^verbatim>\<open>frexp\<close> returns negative zero and the exponent \<open>0\<close>, and the
  conversion of negative zero to \<^verbatim>\<open>type\<close> is \<open>0\<close>, as for zero.\<close>

definition assign_float :: "itype \<Rightarrow> fformat \<Rightarrow> fvalue \<Rightarrow> rational \<Rightarrow> outcome" where
  "assign_float T F v r =
     (case v of
        Not_finite \<Rightarrow> Throws Value_infinite r
      | Negative_zero \<Rightarrow> assign_finite T F 0 0 r
      | Finite m e \<Rightarrow> assign_finite T F m e r)"

text \<open>The converting constructor calls \<^verbatim>\<open>assign\<close> on the new object, whose members are
  written before they are read.\<close>

definition rational_ctor_float :: "itype \<Rightarrow> fformat \<Rightarrow> fvalue \<Rightarrow> outcome" where
  "rational_ctor_float T F v = assign_float T F v \<lparr>numerator = 0, denominator = 0\<rparr>"

subsection \<open>Evaluation\<close>

text \<open>
  \<^verbatim>\<open>evaluate<result_type>\<close> for a floating-point \<^verbatim>\<open>result_type\<close> converts numerator and
  denominator to it and divides there. The arithmetic is that of IEC 60559 with the default
  rounding: a conversion or a division delivers the value of the format nearest to the exact
  result, and of two equally near the one whose significand is even. An exact result that is
  a value of the format is delivered as it is, under every rounding.

  For a positive \<open>q\<close>, the exponent \<open>e\<close> with \<open>2 ^ (e - 1) \<le> q < 2 ^ e\<close>, which is the one
  \<^verbatim>\<open>frexp\<close> returns: it is found from the binary lengths of numerator and denominator.
\<close>

definition frexp_exponent :: "rat \<Rightarrow> int" where
  "frexp_exponent q =
     (let (a, b) = quotient_of q; k = bitlen a - bitlen b
      in if 2 powi k \<le> q then k + 1 else k)"

definition round_half_even :: "rat \<Rightarrow> int" where
  "round_half_even x =
     (let f = \<lfloor>x\<rfloor>; d = x - of_int f
      in if d < 1 / 2 then f else if 1 / 2 < d then f + 1 else if even f then f else f + 1)"

text \<open>A magnitude rounded to the format: to a multiple of the unit in the last place, which
  is \<open>2 ^ (e - digits)\<close> for a normal value and \<open>2 ^ (min_exponent - digits)\<close> below the normal
  range. The result can be \<open>2 ^ max_exponent\<close>, which is beyond the finite values.\<close>

definition round_nearest :: "fformat \<Rightarrow> rat \<Rightarrow> rat" where
  "round_nearest F q =
     (if q = 0 then 0
      else let u = 2 powi (max (frexp_exponent q) (min_exponent F) - int (digits F))
           in of_int (round_half_even (q / u)) * u)"

text \<open>The greatest finite value, \<^verbatim>\<open>std::numeric_limits<result_type>::max()\<close>.\<close>

definition fmax :: "fformat \<Rightarrow> rat" where
  "fmax F = (2 ^ digits F - 1) * 2 powi (max_exponent F - int (digits F))"

text \<open>\<^verbatim>\<open>static_cast<result_type>(n)\<close> for an integer \<open>n\<close>, as the number it delivers; the
  conversion of an integer outside the range of the finite values is undefined.\<close>

definition int_to_fp :: "fformat \<Rightarrow> int \<Rightarrow> rat option" where
  "int_to_fp F n =
     (if fmax F < \<bar>of_int n\<bar> then None
      else Some (of_int (sgn n) * round_nearest F \<bar>of_int n\<bar>))"

text \<open>The floating-point value with sign bit \<open>s\<close> and the rounded magnitude \<open>q\<close>: a zero of that
  sign, an infinity beyond the greatest finite value, and else the value that \<^verbatim>\<open>frexp\<close> takes
  apart into the scaled significand \<open>q * 2 ^ (digits - e)\<close> and the exponent \<open>e\<close>.\<close>

definition fzero :: "bool \<Rightarrow> fvalue" where
  "fzero s = (if s then Negative_zero else Finite 0 0)"

definition to_fvalue :: "fformat \<Rightarrow> bool \<Rightarrow> rat \<Rightarrow> fvalue" where
  "to_fvalue F s q =
     (if q = 0 then fzero s
      else if fmax F < q then Not_finite
      else let e = frexp_exponent q; m = \<lfloor>q * 2 powi (int (digits F) - e)\<rfloor>
           in Finite (if s then - m else m) e)"

text \<open>The quotient has the sign bits of its operands combined, also when it is zero; a
  converted integer is never negative zero. A division by zero gives an infinity or a NaN.
  \<open>None\<close> is an undefined conversion.\<close>

definition evaluate :: "fformat \<Rightarrow> rational \<Rightarrow> fvalue option" where
  "evaluate F r = do {
     a \<leftarrow> int_to_fp F (numerator r);
     b \<leftarrow> int_to_fp F (denominator r);
     Some (if b = 0 then Not_finite
           else to_fvalue F ((a < 0) \<noteq> (b < 0)) (round_nearest F (\<bar>a\<bar> / \<bar>b\<bar>))) }"

subsection \<open>The mutating members\<close>

datatype mutation =
    Assign_int int
  | Add_assign rational
  | Sub_assign rational
  | Mul_assign rational
  | Div_assign operand_ref
  | Add_assign_int int
  | Sub_assign_int int
  | Mul_assign_int int
  | Div_assign_int int
  | Pre_inc
  | Pre_dec
  | Post_inc
  | Post_dec
  | Set_numerator int
  | Set_denominator int
  | Assign int int
  | Assign_float fvalue

text \<open>The state of the object after a call of a mutating member.\<close>

fun mutate :: "itype \<Rightarrow> fformat \<Rightarrow> mutation \<Rightarrow> rational \<Rightarrow> outcome" where
  "mutate T F (Assign_int that) r = operator_assign_int that r"
| "mutate T F (Add_assign that) r = operator_add_assign T that r"
| "mutate T F (Sub_assign that) r = operator_sub_assign T that r"
| "mutate T F (Mul_assign that) r = operator_mul_assign T that r"
| "mutate T F (Div_assign that) r = operator_div_assign T that r"
| "mutate T F (Add_assign_int that) r = operator_add_assign_int T that r"
| "mutate T F (Sub_assign_int that) r = operator_sub_assign_int T that r"
| "mutate T F (Mul_assign_int that) r = operator_mul_assign_int T that r"
| "mutate T F (Div_assign_int that) r = operator_div_assign_int T that r"
| "mutate T F Pre_inc r = operator_pre_inc T r"
| "mutate T F Pre_dec r = operator_pre_dec T r"
| "mutate T F Post_inc r = snd (operator_post_inc T r)"
| "mutate T F Post_dec r = snd (operator_post_dec T r)"
| "mutate T F (Set_numerator v) r = numerator_set T v r"
| "mutate T F (Set_denominator v) r = denominator_set T v r"
| "mutate T F (Assign n d) r = assign T n d r"
| "mutate T F (Assign_float v) r = assign_float T F v r"

text \<open>The rational operand of a member, where it has one that is not the object itself.\<close>

fun operand :: "mutation \<Rightarrow> rational option" where
  "operand (Add_assign that) = Some that"
| "operand (Sub_assign that) = Some that"
| "operand (Mul_assign that) = Some that"
| "operand (Div_assign (Other_object that)) = Some that"
| "operand _ = None"

subsection \<open>Math functions\<close>

text \<open>
  \<^verbatim>\<open>pow\<close> calls \<^verbatim>\<open>std::pow\<close> on two values of \<^verbatim>\<open>type\<close>, which computes in \<^verbatim>\<open>double\<close>, and
  converts each result to \<^verbatim>\<open>type\<close>. What \<^verbatim>\<open>std::pow\<close> returns is a parameter: the number
  returned, or \<open>None\<close> for an infinity or a NaN. The conversion truncates towards zero and
  is undefined out of range.
\<close>

definition to_type :: "itype \<Rightarrow> rat \<Rightarrow> int option" where
  "to_type T q =
     (let z = (if q < 0 then \<lceil>q\<rceil> else \<lfloor>q\<rfloor>)
      in if in_range T z then Some z else None)"

definition pow :: "itype \<Rightarrow> (int \<Rightarrow> int \<Rightarrow> rat option) \<Rightarrow> rational \<Rightarrow> int \<Rightarrow> outcome" where
  "pow T std_pow value p =
     (case do {
          x \<leftarrow> std_pow (numerator value) p;
          n \<leftarrow> to_type T x;
          y \<leftarrow> std_pow (denominator value) p;
          d \<leftarrow> to_type T y;
          Some (n, d) } of
        None \<Rightarrow> Undefined
      | Some (n, d) \<Rightarrow> rational_ctor T n d)"

text \<open>A \<^verbatim>\<open>std::pow\<close> without rounding error: the exact power, infinite for a zero base and a
  negative exponent.\<close>

definition exact_pow :: "int \<Rightarrow> int \<Rightarrow> rat option" where
  "exact_pow x p =
     (if 0 \<le> p then Some (of_int x ^ nat p)
      else if x = 0 then None
      else Some (1 / of_int x ^ nat (- p)))"

section \<open>Reference notions for the statements\<close>

text \<open>The representative of \<open>n / d\<close> that the specification's canonize step describes:
  both parts divided by their greatest common divisor, the sign moved to the numerator.\<close>

definition reduce :: "int \<Rightarrow> int \<Rightarrow> rational" where
  "reduce n d =
     (let g = gcd n d; n' = n div g; d' = d div g
      in if d' < 0 then \<lparr>numerator = - n', denominator = - d'\<rparr>
         else \<lparr>numerator = n', denominator = d'\<rparr>)"

text \<open>\<open>x\<close> and \<open>\<bar>x\<bar>\<close> are values of the type: every value of an unsigned type, every value
  but the least of a signed one.\<close>

definition representable :: "itype \<Rightarrow> int \<Rightarrow> bool" where
  "representable T x = (in_range T x \<and> in_range T \<bar>x\<bar>)"

text \<open>Both cross products of a comparison are values of the base type.\<close>

definition cross_in_range :: "itype \<Rightarrow> rational \<Rightarrow> rational \<Rightarrow> bool" where
  "cross_in_range T a b =
     (in_range T (numerator a * denominator b) \<and> in_range T (denominator a * numerator b))"

text \<open>What the formats of the standard library all satisfy: at least one digit, the number
  one among the normal values (\<open>min_exponent \<le> 1\<close>), and every integer of \<open>digits\<close> binary
  digits among the finite ones (\<open>digits \<le> max_exponent\<close>).\<close>

definition format_ok :: "fformat \<Rightarrow> bool" where
  "format_ok F = (1 \<le> digits F \<and> min_exponent F \<le> 1 \<and> int (digits F) \<le> max_exponent F)"

text \<open>The exact binary fraction of the finite value \<open>Finite m e\<close>, in canonical form.\<close>

definition exact_fraction :: "fformat \<Rightarrow> int \<Rightarrow> int \<Rightarrow> rational" where
  "exact_fraction F m e =
     (let k = e - int (digits F)
      in if 0 \<le> k then reduce (m * 2 ^ nat k) 1 else reduce m (2 ^ nat (- k)))"

text \<open>
  The inputs \<open>Finite m e\<close> that the assignment takes to their exact fraction. The scaled
  significand has to be a value of \<^verbatim>\<open>type\<close> together with its absolute value, and so has one.
  With \<open>k = e - digits\<close>: for \<open>k > 0\<close> the power \<open>2 ^ k\<close> has to be finite in \<^verbatim>\<open>double\<close> and, as
  the product \<open>m * 2 ^ k\<close>, a value of \<^verbatim>\<open>type\<close>; for \<open>k < 0\<close> and \<open>- k < max_exponent - 1\<close> the
  same holds of the denominator \<open>2 ^ (- k)\<close>; for \<open>- k \<ge> max_exponent - 1\<close>, the values near the
  least magnitude, of the two powers \<open>2 ^ (- k - (max_exponent - 1))\<close> and
  \<open>2 ^ (max_exponent - 1)\<close>, and the first of them has to divide \<open>m\<close>, which is not zero.
\<close>

definition converts_exactly :: "itype \<Rightarrow> fformat \<Rightarrow> int \<Rightarrow> int \<Rightarrow> bool" where
  "converts_exactly T F m e =
     (let k = e - int (digits F); y = - k - (max_exponent F - 1)
      in representable T m \<and> in_range T 1 \<and>
         (if 0 < k then k < 1024 \<and> in_range T (2 ^ nat k) \<and> representable T (m * 2 ^ nat k)
          else if k = 0 then True
          else if y < 0 then - k < 1024 \<and> in_range T (2 ^ nat (- k))
          else y < 1024 \<and> in_range T (2 ^ nat y)
             \<and> max_exponent F - 1 < 1024 \<and> in_range T (2 ^ nat (max_exponent F - 1))
             \<and> m \<noteq> 0 \<and> 2 ^ nat y dvd m))"

section \<open>Integer arithmetic in the base type\<close>

lemma sdiv_exact: "b dvd a \<Longrightarrow> a sdiv b = a div (b::int)"
  by (simp add: signed_divide_int_eq_divide_int)

lemma abs_div_le: "g dvd x \<Longrightarrow> g \<noteq> 0 \<Longrightarrow> \<bar>x div g\<bar> \<le> \<bar>x::int\<bar>"
proof -
  assume "g dvd x" and g: "g \<noteq> 0"
  then obtain k where k: "x = g * k" by (auto elim: dvdE)
  have "1 \<le> \<bar>g\<bar>" using g by simp
  then have "\<bar>k\<bar> * 1 \<le> \<bar>k\<bar> * \<bar>g\<bar>" by (intro mult_left_mono) simp_all
  then show ?thesis using g k by (simp add: abs_mult mult.commute)
qed

lemma div_sign: "g dvd x \<Longrightarrow> 0 < g \<Longrightarrow> (0 \<le> x div g) = (0 \<le> (x::int))"
  by (simp add: pos_imp_zdiv_nonneg_iff)

lemma div_neg_iff: "g dvd x \<Longrightarrow> 0 < g \<Longrightarrow> (x div g < 0) = ((x::int) < 0)"
  by (simp add: pos_imp_zdiv_neg_iff)

lemma gcd_pos_int: "n \<noteq> 0 \<or> d \<noteq> 0 \<Longrightarrow> 0 < gcd n (d::int)"
  by (metis gcd_eq_0_iff gcd_ge_0_int order_less_le)

lemma in_range_abs_le:
  "representable T x \<Longrightarrow> \<bar>y\<bar> \<le> \<bar>x\<bar> \<Longrightarrow> is_signed T \<or> 0 \<le> y \<Longrightarrow> in_range T y"
  by (auto simp: representable_def in_range_def tmin_def tmax_def split: if_splits)

lemma representable_signed: "representable T x \<Longrightarrow> x < 0 \<Longrightarrow> is_signed T"
  by (auto simp: representable_def in_range_def tmin_def split: if_splits)

lemma arith_in_range: "in_range T x \<Longrightarrow> arith T x = Some x"
  by (simp add: arith_def)

lemma add_in_range: "in_range T (a + b) \<Longrightarrow> add T a b = Some (a + b)"
  by (simp add: add_def arith_in_range)

lemma sub_in_range: "in_range T (a - b) \<Longrightarrow> sub T a b = Some (a - b)"
  by (simp add: sub_def arith_in_range)

lemma mul_in_range: "in_range T (a * b) \<Longrightarrow> mul T a b = Some (a * b)"
  by (simp add: mul_def arith_in_range)

lemma neg_in_range: "in_range T (- a) \<Longrightarrow> neg T a = Some (- a)"
  by (simp add: neg_def arith_in_range)

lemma cdiv_Some: "cdiv T a b = Some q \<longleftrightarrow> b \<noteq> 0 \<and> in_range T (a sdiv b) \<and> q = a sdiv b"
  by (auto simp: cdiv_def)

lemma std_gcd_Some:
  "std_gcd T m n = Some g \<longleftrightarrow> in_range T \<bar>m\<bar> \<and> in_range T \<bar>n\<bar> \<and> g = gcd m n"
  by (auto simp: std_gcd_def)

lemma cdiv_gcd:
  assumes "representable T x" and "g dvd x" and "0 < g"
  shows "cdiv T x g = Some (x div g)"
proof -
  have "\<bar>x div g\<bar> \<le> \<bar>x\<bar>" using assms by (simp add: abs_div_le)
  moreover have "is_signed T \<or> 0 \<le> x div g"
    using assms representable_signed [of T x] by (auto simp: div_sign not_le)
  ultimately have "in_range T (x div g)" using in_range_abs_le [OF assms(1)] by blast
  then show ?thesis using assms by (simp add: cdiv_def sdiv_exact)
qed

lemma neg_div_gcd:
  assumes "representable T x" and "g dvd x" and "0 < g" and "is_signed T"
  shows "neg T (x div g) = Some (- (x div g))"
proof -
  have "\<bar>- (x div g)\<bar> \<le> \<bar>x\<bar>" using assms by (simp add: abs_div_le)
  then have "in_range T (- (x div g))" using assms(1,4) by (intro in_range_abs_le [of T x]) auto
  then show ?thesis by (simp add: neg_def arith_in_range)
qed

subsection \<open>Executions without overflow\<close>

text \<open>For a type that does not wrap around, a signed type of C++ among them, these are
  all executions.\<close>

lemma no_wrap_id: "\<not> wraps T \<Longrightarrow> no_wrap T = T"
  by (simp add: no_wrap_def)

lemma in_range_no_wrap [simp]: "in_range (no_wrap T) x = in_range T x"
  by (simp add: in_range_def tmin_def tmax_def no_wrap_def)

lemma arith_no_wrap: "arith (no_wrap T) x = Some y \<longleftrightarrow> in_range T x \<and> y = x"
  by (auto simp: arith_def no_wrap_def in_range_no_wrap [unfolded no_wrap_def])

lemma std_gcd_no_wrap [simp]: "std_gcd (no_wrap T) m n = std_gcd T m n"
  by (simp add: std_gcd_def)

lemma cdiv_no_wrap [simp]: "cdiv (no_wrap T) a b = cdiv T a b"
  by (simp add: cdiv_def)

lemma fp_to_type_no_wrap [simp]: "fp_to_type (no_wrap T) x = fp_to_type T x"
  by (simp add: fp_to_type_def)

lemma exp2_cast_no_wrap [simp]: "exp2_cast (no_wrap T) k = exp2_cast T k"
  by (simp add: exp2_cast_def)

lemma add_no_wrap: "add (no_wrap T) a b = Some y \<longleftrightarrow> in_range T (a + b) \<and> y = a + b"
  by (simp add: add_def arith_no_wrap)

lemma sub_no_wrap: "sub (no_wrap T) a b = Some y \<longleftrightarrow> in_range T (a - b) \<and> y = a - b"
  by (simp add: sub_def arith_no_wrap)

lemma mul_no_wrap: "mul (no_wrap T) a b = Some y \<longleftrightarrow> in_range T (a * b) \<and> y = a * b"
  by (simp add: mul_def arith_no_wrap)

lemma neg_no_wrap: "neg (no_wrap T) a = Some y \<longleftrightarrow> in_range T (- a) \<and> y = - a"
  by (simp add: neg_def arith_no_wrap)

section \<open>Canonical form\<close>

lemma reduce_canonical: "d \<noteq> 0 \<Longrightarrow> canonical (reduce n d)"
proof -
  assume d: "d \<noteq> 0"
  define g where "g = gcd n d"
  have g: "0 < g" "g dvd n" "g dvd d" using d by (auto simp: g_def gcd_pos_int)
  have c: "coprime (n div g) (d div g)" unfolding g_def using d by (intro div_gcd_coprime) simp
  have nz: "d div g \<noteq> 0" using g d by (metis dvd_div_eq_0_iff)
  show ?thesis using c nz
    by (auto simp: canonical_def reduce_def Let_def g_def [symmetric] coprime_iff_gcd_eq_1)
qed

lemma reduce_value: "numerator (reduce n d) * d = n * denominator (reduce n d)"
proof -
  define g where "g = gcd n d"
  have g: "g dvd n" "g dvd d" by (auto simp: g_def)
  have "(n div g) * d = n * (d div g)"
    using g by (metis div_mult_swap dvd_div_mult mult.commute)
  then show ?thesis by (simp add: reduce_def Let_def g_def [symmetric])
qed

lemma canonical_unique:
  assumes "canonical p" and "canonical q"
    and "numerator p * denominator q = numerator q * denominator p"
  shows "p = q"
proof -
  have cp: "coprime (numerator p) (denominator p)" and cq: "coprime (numerator q) (denominator q)"
    using assms(1,2) by (simp_all add: canonical_def coprime_iff_gcd_eq_1)
  have pos: "0 < denominator p" "0 < denominator q" using assms(1,2) by (simp_all add: canonical_def)
  have "denominator p dvd numerator p * denominator q" using assms(3) by simp
  then have 1: "denominator p dvd denominator q"
    using cp by (simp add: coprime_commute coprime_dvd_mult_right_iff)
  have "denominator q dvd numerator q * denominator p" using assms(3) [symmetric] by simp
  then have 2: "denominator q dvd denominator p"
    using cq by (simp add: coprime_commute coprime_dvd_mult_right_iff)
  have d: "denominator p = denominator q" using 1 2 pos by (simp add: zdvd_antisym_nonneg)
  then have "numerator p = numerator q" using assms(3) pos by simp
  then show ?thesis using d by simp
qed

lemma reduce_canonical_id:
  assumes "canonical r"
  shows "reduce (numerator r) (denominator r) = r"
proof (rule canonical_unique)
  show "canonical (reduce (numerator r) (denominator r))"
    using assms by (intro reduce_canonical) (simp add: canonical_def)
  show "canonical r" by fact
  show "numerator (reduce (numerator r) (denominator r)) * denominator r =
        numerator r * denominator (reduce (numerator r) (denominator r))"
    by (rule reduce_value)
qed

text \<open>On operands that are representable and not both zero, \<^verbatim>\<open>canonize\<close> is defined and
  computes \<open>reduce\<close>, whatever the type does on overflow.\<close>

lemma canonize_reduce:
  assumes n: "representable T n" and d: "representable T d" and nz: "n \<noteq> 0 \<or> d \<noteq> 0"
  shows "canonize T \<lparr>numerator = n, denominator = d\<rparr> = Some (reduce n d)"
proof -
  define g where "g = gcd n d"
  have g: "0 < g" "g dvd n" "g dvd d" using nz by (auto simp: g_def gcd_pos_int)
  have G: "std_gcd T n d = Some g"
    using n d by (simp add: std_gcd_def representable_def g_def)
  have N: "cdiv T n g = Some (n div g)" using n g by (simp add: cdiv_gcd)
  have D: "cdiv T d g = Some (d div g)" using d g by (simp add: cdiv_gcd)
  show ?thesis
  proof (cases "d div g < 0")
    case True
    then have "d < 0" using g by (simp add: div_neg_iff)
    then have s: "is_signed T" using d by (rule representable_signed [rotated])
    have "neg T (n div g) = Some (- (n div g))" "neg T (d div g) = Some (- (d div g))"
      using n d g s by (simp_all add: neg_div_gcd)
    then show ?thesis using G N D True
      by (simp add: canonize_def reduce_def Let_def g_def [symmetric])
  next
    case False
    then show ?thesis using G N D
      by (simp add: canonize_def reduce_def Let_def g_def [symmetric])
  qed
qed

lemma canonize_no_wrapD:
  assumes "canonize (no_wrap T) p = Some r'"
  shows "canonize T p = Some r' \<and> r' = reduce (numerator p) (denominator p)
         \<and> (numerator p \<noteq> 0 \<or> denominator p \<noteq> 0)"
proof -
  define g where "g = gcd (numerator p) (denominator p)"
  have dv: "g dvd numerator p" "g dvd denominator p" by (simp_all add: g_def)
  from assms show ?thesis
    unfolding canonize_def
    by (auto simp: bind_eq_Some_conv std_gcd_Some cdiv_Some neg_no_wrap neg_in_range
        reduce_def Let_def sdiv_exact split: if_splits)
qed

lemma finish_Returned [simp]: "finish x = Returned r \<longleftrightarrow> x = Some r"
  by (simp add: finish_def split: option.splits)

lemma finish_Throws [simp]: "finish x \<noteq> Throws e r"
  by (simp add: finish_def split: option.splits)

lemma finish_Undefined [simp]: "finish x = Undefined \<longleftrightarrow> x = None"
  by (simp add: finish_def split: option.splits)

lemma canonical_add_multiple:
  "canonical r \<Longrightarrow> canonical (r\<lparr>numerator := numerator r + k * denominator r\<rparr>)"
proof -
  have "gcd (numerator r + k * denominator r) (denominator r) =
      gcd (numerator r) (denominator r)"
    by (metis add.commute gcd.commute gcd_add_mult)
  then show "canonical r \<Longrightarrow> ?thesis" by (simp add: canonical_def)
qed

section \<open>The members in executions without overflow\<close>

text \<open>When a member runs to its end with no arithmetic result leaving the range of the
  base type, the base type itself gives the same result, and the result is the exact one.\<close>

lemma rational_ctor_no_wrapD:
  assumes "rational_ctor (no_wrap T) n d = Returned r'"
  shows "rational_ctor T n d = Returned r' \<and> r' = reduce n d \<and> d \<noteq> 0"
  using assms canonize_no_wrapD [of T "\<lparr>numerator = n, denominator = d\<rparr>" r']
  by (auto simp: rational_ctor_def split: if_splits)

lemma assign_no_wrapD:
  assumes "assign (no_wrap T) n d r = Returned r'"
  shows "assign T n d r = Returned r' \<and> r' = reduce n d \<and> d \<noteq> 0"
  using assms canonize_no_wrapD [of T "\<lparr>numerator = n, denominator = d\<rparr>" r']
  by (auto simp: assign_def split: if_splits)

lemma operator_add_assign_no_wrapD:
  assumes "operator_add_assign (no_wrap T) that r = Returned r'"
  shows "operator_add_assign T that r = Returned r'
    \<and> r' = reduce (numerator r * denominator that + denominator r * numerator that)
        (denominator r * denominator that)
    \<and> (denominator r * denominator that \<noteq> 0 \<or>
       numerator r * denominator that + denominator r * numerator that \<noteq> 0)"
  using assms
  by (auto simp: operator_add_assign_def bind_eq_Some_conv mul_no_wrap add_no_wrap
      mul_in_range add_in_range dest!: canonize_no_wrapD)

lemma operator_sub_assign_no_wrapD:
  assumes "operator_sub_assign (no_wrap T) that r = Returned r'"
  shows "operator_sub_assign T that r = Returned r'
    \<and> r' = reduce (numerator r * denominator that - denominator r * numerator that)
        (denominator r * denominator that)
    \<and> (denominator r * denominator that \<noteq> 0 \<or>
       numerator r * denominator that - denominator r * numerator that \<noteq> 0)"
  using assms
  by (auto simp: operator_sub_assign_def bind_eq_Some_conv mul_no_wrap sub_no_wrap
      mul_in_range sub_in_range dest!: canonize_no_wrapD)

lemma operator_mul_assign_no_wrapD:
  assumes "operator_mul_assign (no_wrap T) that r = Returned r'"
  shows "operator_mul_assign T that r = Returned r'
    \<and> r' = reduce (numerator r * numerator that) (denominator r * denominator that)
    \<and> (denominator r * denominator that \<noteq> 0 \<or> numerator r * numerator that \<noteq> 0)"
  using assms
  by (auto simp: operator_mul_assign_def bind_eq_Some_conv mul_no_wrap mul_in_range
      dest!: canonize_no_wrapD)

lemma operator_div_assign_no_wrapD:
  assumes "operator_div_assign (no_wrap T) that r = Returned r'"
  shows "operator_div_assign T that r = Returned r'
    \<and> r' = reduce (numerator r * denominator (deref that r))
        (denominator r *
          numerator (deref that (r\<lparr>numerator := numerator r * denominator (deref that r)\<rparr>)))
    \<and> numerator (deref that r) \<noteq> 0"
  using assms
  by (auto simp: operator_div_assign_def bind_eq_Some_conv mul_no_wrap mul_in_range Let_def
      split: if_splits dest!: canonize_no_wrapD)

lemma operator_add_assign_int_no_wrapD:
  assumes "operator_add_assign_int (no_wrap T) that r = Returned r'"
  shows "operator_add_assign_int T that r = Returned r'
    \<and> r' = r\<lparr>numerator := numerator r + that * denominator r\<rparr>"
  using assms
  by (auto simp: operator_add_assign_int_def bind_eq_Some_conv mul_no_wrap add_no_wrap
      mul_in_range add_in_range)

lemma operator_sub_assign_int_no_wrapD:
  assumes "operator_sub_assign_int (no_wrap T) that r = Returned r'"
  shows "operator_sub_assign_int T that r = Returned r'
    \<and> r' = r\<lparr>numerator := numerator r + (- that) * denominator r\<rparr>"
  using assms
  by (auto simp: operator_sub_assign_int_def bind_eq_Some_conv mul_no_wrap sub_no_wrap
      mul_in_range sub_in_range)

lemma operator_mul_assign_int_no_wrapD:
  assumes "operator_mul_assign_int (no_wrap T) that r = Returned r'"
  shows "operator_mul_assign_int T that r = Returned r'
    \<and> r' = reduce (numerator r * that) (denominator r)"
  using assms
  by (auto simp: operator_mul_assign_int_def bind_eq_Some_conv mul_no_wrap mul_in_range
      dest!: canonize_no_wrapD)

lemma operator_div_assign_int_no_wrapD:
  assumes "operator_div_assign_int (no_wrap T) that r = Returned r'"
  shows "operator_div_assign_int T that r = Returned r'
    \<and> r' = reduce (numerator r) (denominator r * that) \<and> that \<noteq> 0"
  using assms
  by (auto simp: operator_div_assign_int_def bind_eq_Some_conv mul_no_wrap mul_in_range
      split: if_splits dest!: canonize_no_wrapD)

lemma operator_pre_inc_no_wrapD:
  assumes "operator_pre_inc (no_wrap T) r = Returned r'"
  shows "operator_pre_inc T r = Returned r'
    \<and> r' = r\<lparr>numerator := numerator r + 1 * denominator r\<rparr>"
  using assms
  by (auto simp: operator_pre_inc_def bind_eq_Some_conv add_no_wrap add_in_range)

lemma operator_pre_dec_no_wrapD:
  assumes "operator_pre_dec (no_wrap T) r = Returned r'"
  shows "operator_pre_dec T r = Returned r'
    \<and> r' = r\<lparr>numerator := numerator r + (- 1) * denominator r\<rparr>"
  using assms
  by (auto simp: operator_pre_dec_def bind_eq_Some_conv sub_no_wrap sub_in_range)

lemma numerator_set_no_wrapD:
  assumes "numerator_set (no_wrap T) v r = Returned r'"
  shows "numerator_set T v r = Returned r' \<and> r' = reduce v (denominator r)"
  using assms by (auto simp: numerator_set_def dest!: canonize_no_wrapD)

lemma denominator_set_no_wrapD:
  assumes "denominator_set (no_wrap T) v r = Returned r'"
  shows "denominator_set T v r = Returned r' \<and> r' = reduce (numerator r) v \<and> v \<noteq> 0"
  using assms by (auto simp: denominator_set_def split: if_splits dest!: canonize_no_wrapD)

lemma assign_float_no_wrapD:
  assumes "assign_float (no_wrap T) F v r = Returned r'"
  shows "assign_float T F v r = Returned r' \<and> canonical r'"
  using assms
  by (auto simp: assign_float_def assign_finite_def Let_def bind_eq_Some_conv mul_no_wrap
      mul_in_range reduce_canonical
      split: fvalue.splits option.splits if_splits dest!: assign_no_wrapD)

lemma operator_minus_no_wrapD:
  assumes "operator_minus (no_wrap T) r = Returned r'"
  shows "operator_minus T r = Returned r' \<and> canonical r'"
  using assms
  by (auto simp: operator_minus_def neg_no_wrap neg_in_range reduce_canonical
      split: option.splits dest!: rational_ctor_no_wrapD)

lemma mutate_no_wrapD:
  assumes r: "canonical r" and o: "\<forall>that. operand op = Some that \<longrightarrow> canonical that"
    and m: "mutate (no_wrap T) F op r = Returned r'"
  shows "mutate T F op r = Returned r' \<and> canonical r'"
proof -
  have d: "denominator r \<noteq> 0" using r by (simp add: canonical_def)
  show ?thesis
  proof (cases op)
    case (Assign_int that)
    then show ?thesis using m by (auto simp: operator_assign_int_def canonical_def)
  next
    case (Add_assign that)
    then have "denominator that \<noteq> 0" using o by (simp add: canonical_def)
    then show ?thesis
      using Add_assign m d operator_add_assign_no_wrapD [of T that r r']
      by (simp add: reduce_canonical)
  next
    case (Sub_assign that)
    then have "denominator that \<noteq> 0" using o by (simp add: canonical_def)
    then show ?thesis
      using Sub_assign m d operator_sub_assign_no_wrapD [of T that r r']
      by (simp add: reduce_canonical)
  next
    case (Mul_assign that)
    then have "denominator that \<noteq> 0" using o by (simp add: canonical_def)
    then show ?thesis
      using Mul_assign m d operator_mul_assign_no_wrapD [of T that r r']
      by (simp add: reduce_canonical)
  next
    case (Div_assign that)
    then have "numerator (deref that r) \<noteq> 0"
      using m operator_div_assign_no_wrapD [of T that r r'] by simp
    then have "denominator r *
        numerator (deref that (r\<lparr>numerator := numerator r * denominator (deref that r)\<rparr>)) \<noteq> 0"
      using d by (cases that) simp_all
    then show ?thesis
      using Div_assign m operator_div_assign_no_wrapD [of T that r r']
      by (simp add: reduce_canonical)
  next
    case (Add_assign_int that)
    then show ?thesis
      using m r operator_add_assign_int_no_wrapD [of T that r r']
      by (simp add: canonical_add_multiple)
  next
    case (Sub_assign_int that)
    then show ?thesis
      using m r operator_sub_assign_int_no_wrapD [of T that r r']
        canonical_add_multiple [of r "- that"]
      by simp
  next
    case (Mul_assign_int that)
    then show ?thesis
      using m d operator_mul_assign_int_no_wrapD [of T that r r']
      by (simp add: reduce_canonical)
  next
    case (Div_assign_int that)
    then show ?thesis
      using m d operator_div_assign_int_no_wrapD [of T that r r']
      by (simp add: reduce_canonical)
  next
    case Pre_inc
    then show ?thesis
      using m r operator_pre_inc_no_wrapD [of T r r'] canonical_add_multiple [of r 1]
      by simp
  next
    case Pre_dec
    then show ?thesis
      using m r operator_pre_dec_no_wrapD [of T r r'] canonical_add_multiple [of r "- 1"]
      by simp
  next
    case Post_inc
    then show ?thesis
      using m r operator_pre_inc_no_wrapD [of T r r'] canonical_add_multiple [of r 1]
      by (simp add: operator_post_inc_def)
  next
    case Post_dec
    then show ?thesis
      using m r operator_pre_dec_no_wrapD [of T r r'] canonical_add_multiple [of r "- 1"]
      by (simp add: operator_post_dec_def)
  next
    case (Set_numerator v)
    then show ?thesis
      using m d numerator_set_no_wrapD [of T v r r'] by (simp add: reduce_canonical)
  next
    case (Set_denominator v)
    then show ?thesis
      using m denominator_set_no_wrapD [of T v r r'] by (simp add: reduce_canonical)
  next
    case (Assign n d)
    then show ?thesis
      using m assign_no_wrapD [of T n d r r'] by (simp add: reduce_canonical)
  next
    case (Assign_float v)
    then show ?thesis
      using m assign_float_no_wrapD [of T F v r r'] by simp
  qed
qed

section \<open>Canonical form of every value produced\<close>

text \<open>
  Claim C1, as stated, fails where a product wraps around in an unsigned base type: in
  \<^verbatim>\<open>rational<unsigned int>\<close>, multiplying the canonical \<open>1/65536\<close> by itself succeeds and
  leaves the denominator \<open>65536 * 65536 = 0\<close> (modulo \<open>2 ^ 32\<close>).
\<close>

theorem product_unsigned_zero_denominator:
  "canonical \<lparr>numerator = 1, denominator = 65536\<rparr>
   \<and> operator_mul_assign unsigned_t \<lparr>numerator = 1, denominator = 65536\<rparr>
        \<lparr>numerator = 1, denominator = 65536\<rparr> = Returned \<lparr>numerator = 1, denominator = 0\<rparr>
   \<and> \<not> canonical \<lparr>numerator = 1, denominator = 0\<rparr>"
proof -
  have "operator_mul_assign unsigned_t \<lparr>numerator = 1, denominator = 65536\<rparr>
      \<lparr>numerator = 1, denominator = 65536\<rparr> = Returned \<lparr>numerator = 1, denominator = 0\<rparr>"
    by code_simp
  then show ?thesis by (simp add: canonical_def)
qed

text \<open>
  Claim C1, amended. Whenever a public operation runs to its end with no arithmetic result
  leaving the range of the base type (for a signed type: whenever it returns), the value it
  returns is in canonical form, and it is the value the base type's own arithmetic returns.
  This holds for the two-argument constructor and the constructor from a floating-point
  value on any arguments, for unary minus and invert on any object, and for assignment of
  an integer, the compound arithmetic operators, increment and decrement, the setters and
  both forms of assign on a canonical object with a canonical operand.
\<close>

theorem canonical_form_established:
  "(rational_ctor (no_wrap T) n d = Returned r' \<longrightarrow>
      rational_ctor T n d = Returned r' \<and> canonical r')
   \<and> (rational_ctor_float (no_wrap T) F v = Returned r' \<longrightarrow>
      rational_ctor_float T F v = Returned r' \<and> canonical r')
   \<and> (operator_minus (no_wrap T) r = Returned r' \<longrightarrow>
      operator_minus T r = Returned r' \<and> canonical r')
   \<and> (operator_invert (no_wrap T) r = Returned r' \<longrightarrow>
      operator_invert T r = Returned r' \<and> canonical r')
   \<and> (canonical r \<and> (\<forall>that. operand op = Some that \<longrightarrow> canonical that)
        \<and> mutate (no_wrap T) F op r = Returned r' \<longrightarrow>
      mutate T F op r = Returned r' \<and> canonical r')"
proof -
  have 1: "rational_ctor (no_wrap T) n d = Returned r' \<Longrightarrow>
      rational_ctor T n d = Returned r' \<and> canonical r'"
    by (auto simp: reduce_canonical dest!: rational_ctor_no_wrapD)
  have 2: "rational_ctor_float (no_wrap T) F v = Returned r' \<Longrightarrow>
      rational_ctor_float T F v = Returned r' \<and> canonical r'"
    unfolding rational_ctor_float_def by (rule assign_float_no_wrapD)
  have 3: "operator_minus (no_wrap T) r = Returned r' \<Longrightarrow>
      operator_minus T r = Returned r' \<and> canonical r'"
    by (rule operator_minus_no_wrapD)
  have 4: "operator_invert (no_wrap T) r = Returned r' \<Longrightarrow>
      operator_invert T r = Returned r' \<and> canonical r'"
    unfolding operator_invert_def
    by (auto simp: reduce_canonical dest!: rational_ctor_no_wrapD)
  have 5: "canonical r \<and> (\<forall>that. operand op = Some that \<longrightarrow> canonical that)
      \<and> mutate (no_wrap T) F op r = Returned r' \<Longrightarrow>
      mutate T F op r = Returned r' \<and> canonical r'"
    using mutate_no_wrapD [of r op T F r'] by blast
  show ?thesis using 1 2 3 4 5 by blast
qed

theorem canonical_form_established_witness:
  "rational_ctor int_t 4 8 = Returned \<lparr>numerator = 1, denominator = 2\<rparr>
   \<and> rational_ctor_float int_t float_t (Finite 8388608 0) =
       Returned \<lparr>numerator = 1, denominator = 2\<rparr>
   \<and> canonical \<lparr>numerator = 1, denominator = 2\<rparr>
   \<and> operator_minus int_t \<lparr>numerator = 1, denominator = 2\<rparr> =
       Returned \<lparr>numerator = - 1, denominator = 2\<rparr>
   \<and> canonical \<lparr>numerator = - 1, denominator = 2\<rparr>
   \<and> operator_invert int_t \<lparr>numerator = - 2, denominator = 3\<rparr> =
       Returned \<lparr>numerator = - 3, denominator = 2\<rparr>
   \<and> canonical \<lparr>numerator = - 3, denominator = 2\<rparr>
   \<and> mutate int_t float_t (Mul_assign \<lparr>numerator = 3, denominator = 4\<rparr>)
         \<lparr>numerator = 2, denominator = 3\<rparr> = Returned \<lparr>numerator = 1, denominator = 2\<rparr>"
proof -
  let ?h = "\<lparr>numerator = 1, denominator = 2\<rparr>"
  let ?a = "\<lparr>numerator = 2, denominator = 3\<rparr>"
  let ?b = "\<lparr>numerator = 3, denominator = 4\<rparr>"
  let ?m = "\<lparr>numerator = - 1, denominator = 2\<rparr>"
  let ?i = "\<lparr>numerator = - 2, denominator = 3\<rparr>"
  let ?j = "\<lparr>numerator = - 3, denominator = 2\<rparr>"
  have h1: "rational_ctor (no_wrap int_t) 4 8 = Returned ?h"
    by code_simp
  have h2: "rational_ctor_float (no_wrap int_t) float_t (Finite 8388608 0) = Returned ?h"
    by code_simp
  have h3: "operator_minus (no_wrap int_t) ?h = Returned ?m"
    by code_simp
  have h4: "operator_invert (no_wrap int_t) ?i = Returned ?j"
    by code_simp
  have g: "gcd (3::int) 4 = 1" "gcd (2::int) 3 = 1" by code_simp+
  have h5: "canonical ?a \<and> (\<forall>that. operand (Mul_assign ?b) = Some that \<longrightarrow> canonical that)
      \<and> mutate (no_wrap int_t) float_t (Mul_assign ?b) ?a = Returned ?h"
  proof -
    have "mutate (no_wrap int_t) float_t (Mul_assign ?b) ?a = Returned ?h"
      by code_simp
    then show ?thesis using g by (simp add: canonical_def)
  qed
  have c1: "rational_ctor int_t 4 8 = Returned ?h \<and> canonical ?h"
    using canonical_form_established [of int_t 4 8 ?h float_t "Finite 8388608 0" ?h Pre_inc] h1
    by blast
  have c2: "rational_ctor_float int_t float_t (Finite 8388608 0) = Returned ?h"
    using canonical_form_established [of int_t 4 8 ?h float_t "Finite 8388608 0" ?h Pre_inc] h2
    by blast
  have c3: "operator_minus int_t ?h = Returned ?m \<and> canonical ?m"
    using canonical_form_established [of int_t 4 8 ?m float_t "Finite 8388608 0" ?h Pre_inc] h3
    by blast
  have c4: "operator_invert int_t ?i = Returned ?j \<and> canonical ?j"
    using canonical_form_established [of int_t 4 8 ?j float_t "Finite 8388608 0" ?i Pre_inc] h4
    by blast
  have c5: "mutate int_t float_t (Mul_assign ?b) ?a = Returned ?h"
    using canonical_form_established [of int_t 4 8 ?h float_t "Finite 8388608 0" ?a "Mul_assign ?b"] h5
    by blast
  show ?thesis using c1 c2 c3 c4 c5 by blast
qed

section \<open>Construction from a floating-point value and evaluation\<close>

subsection \<open>The arithmetic of the floating-point type\<close>

lemma pow2_pos [simp]: "0 < (2::rat) powi k"
  by (simp add: zero_less_power_int)

lemma pow2_not_neg [simp]: "\<not> (2::rat) powi k < 0"
  using pow2_pos [of k] by (simp only: not_less less_imp_le)

lemma pow2_add: "(2::rat) powi (a + b) = 2 powi a * 2 powi b"
  by (simp add: power_int_add)

lemma pow2_diff: "(2::rat) powi (a - b) = 2 powi a / 2 powi b"
  by (simp add: power_int_diff)

lemma pow2_mono: "a \<le> b \<Longrightarrow> (2::rat) powi a \<le> 2 powi b"
  by (simp add: power_int_increasing)

lemma pow2_less_cancel: "(2::rat) powi a < 2 powi b \<Longrightarrow> a < b"
  using pow2_mono [of b a] by (cases "a < b") simp_all

lemma pow2_nat: "0 \<le> k \<Longrightarrow> (2::rat) powi k = 2 ^ nat k"
  by (simp add: power_int_def)

lemma frexp_exponent_bounds:
  assumes "0 < q"
  shows "2 powi (frexp_exponent q - 1) \<le> q \<and> q < 2 powi (frexp_exponent q)"
proof -
  obtain a b where ab: "quotient_of q = (a, b)" by (cases "quotient_of q")
  then have b: "0 < b" and q: "q = of_int a / of_int b"
    by (simp_all add: quotient_of_denom_pos quotient_of_div)
  have a: "0 < a" using assms b q by (simp add: zero_less_divide_iff)
  define la lb where "la = bitlen a" and "lb = bitlen b"
  have la: "0 < la" "0 < lb"
    using a b bitlen_eq_zero_iff [of a] bitlen_eq_zero_iff [of b] bitlen_nonneg [of a]
      bitlen_nonneg [of b]
    by (simp_all add: la_def lb_def order_less_le)
  have "2 ^ nat (la - 1) \<le> a" "a < 2 ^ nat la" "2 ^ nat (lb - 1) \<le> b" "b < 2 ^ nat lb"
    using bitlen_bounds [OF a] bitlen_bounds [OF b] by (simp_all add: la_def lb_def)
  then have "(of_int (2 ^ nat (la - 1)) :: rat) \<le> of_int a" "(of_int a :: rat) < of_int (2 ^ nat la)"
    "(of_int (2 ^ nat (lb - 1)) :: rat) \<le> of_int b" "(of_int b :: rat) < of_int (2 ^ nat lb)"
    by (simp_all only: of_int_le_iff of_int_less_iff)
  then have ba: "(2::rat) powi (la - 1) \<le> of_int a" "(of_int a :: rat) < 2 powi la"
    and bb: "(2::rat) powi (lb - 1) \<le> of_int b" "(of_int b :: rat) < 2 powi lb"
    using la by (simp_all add: pow2_nat)
  have B: "0 < (of_int b :: rat)" using b by simp
  have up: "q < 2 powi (la - lb + 1)"
  proof -
    have "of_int a < (2::rat) powi (la - lb + 1) * 2 powi (lb - 1)"
      using ba(2) by (simp add: pow2_add [symmetric])
    also have "\<dots> \<le> 2 powi (la - lb + 1) * of_int b"
      using bb(1) by (simp add: mult_left_mono)
    finally show ?thesis using B by (simp add: q pos_divide_less_eq)
  qed
  have lo: "2 powi (la - lb - 1) \<le> q"
  proof -
    have "(2::rat) powi (la - lb - 1) * of_int b \<le> 2 powi (la - lb - 1) * 2 powi lb"
      using bb(2) by (simp add: mult_left_mono)
    also have "\<dots> = 2 powi (la - 1)" by (simp add: pow2_add [symmetric])
    also have "\<dots> \<le> of_int a" by (rule ba(1))
    finally show ?thesis using B by (simp add: q pos_le_divide_eq)
  qed
  show ?thesis
    using up lo ab
    by (auto simp: frexp_exponent_def Let_def la_def [symmetric] lb_def [symmetric] not_le)
qed

lemma frexp_exponent_unique:
  assumes "2 powi (e - 1) \<le> q" and "q < 2 powi e"
  shows "frexp_exponent q = e"
proof -
  have "0 < q" using assms(1) pow2_pos [of "e - 1"] by (rule less_le_trans [rotated])
  from frexp_exponent_bounds [OF this]
  have 1: "2 powi (frexp_exponent q - 1) \<le> q" and 2: "q < 2 powi (frexp_exponent q)" by simp_all
  have "(2::rat) powi (frexp_exponent q - 1) < 2 powi e" using 1 assms(2) by (rule le_less_trans)
  then have "frexp_exponent q - 1 < e" by (rule pow2_less_cancel)
  moreover have "(2::rat) powi (e - 1) < 2 powi (frexp_exponent q)"
    using assms(1) 2 by (rule le_less_trans)
  then have "e - 1 < frexp_exponent q" by (rule pow2_less_cancel)
  ultimately show ?thesis by simp
qed

lemma round_half_even_of_int [simp]: "round_half_even (of_int n) = n"
  by (simp add: round_half_even_def)


lemma normal_bounds:
  assumes "1 \<le> p" and "2 ^ (p - 1) \<le> M" and "M < 2 ^ p"
  shows "2 powi (e - 1) \<le> (of_int M :: rat) * 2 powi (e - int p)"
    and "(of_int M :: rat) * 2 powi (e - int p) < 2 powi e"
proof -
  have "(of_int (2 ^ (p - 1)) :: rat) \<le> of_int M" "(of_int M :: rat) < of_int (2 ^ p)"
    using assms(2,3) by (simp_all only: of_int_le_iff of_int_less_iff)
  then have b: "(2::rat) powi (int p - 1) \<le> of_int M" "(of_int M :: rat) < 2 powi (int p)"
    using assms(1) by (simp_all add: pow2_nat nat_diff_distrib)
  have "(2::rat) powi (e - 1) = 2 powi (int p - 1) * 2 powi (e - int p)"
    by (simp add: pow2_add [symmetric])
  also have "\<dots> \<le> of_int M * 2 powi (e - int p)"
    using b(1) by (simp add: mult_right_mono)
  finally show "2 powi (e - 1) \<le> (of_int M :: rat) * 2 powi (e - int p)" .
  have "(of_int M :: rat) * 2 powi (e - int p) < 2 powi (int p) * 2 powi (e - int p)"
    using b(2) by (simp add: mult_strict_right_mono)
  also have "\<dots> = 2 powi e" using pow2_add [of "int p" "e - int p"] by simp
  finally show "(of_int M :: rat) * 2 powi (e - int p) < 2 powi e" .
qed

lemma normal_exponent:
  assumes "1 \<le> p" and "2 ^ (p - 1) \<le> M" and "M < 2 ^ p"
  shows "frexp_exponent (of_int M * 2 powi (e - int p)) = e"
  using normal_bounds [OF assms] by (rule frexp_exponent_unique)

lemma fvalue_of_Finite:
  "fvalue_of F (Finite m e) = Some (of_int m * 2 powi (e - int (digits F)))"
proof (cases "0 \<le> e - int (digits F)")
  case True
  then show ?thesis by (simp add: fvalue_of_def Let_def pow2_nat)
next
  case False
  then have "(2::rat) powi (e - int (digits F)) = 1 / 2 ^ nat (- (e - int (digits F)))"
    using power_int_minus_divide [of "2::rat" "- (e - int (digits F))"]
      pow2_nat [of "- (e - int (digits F))"]
    by simp
  then show ?thesis using False by (simp add: fvalue_of_def Let_def)
qed

lemma is_value_zero: "is_value F (Finite 0 e) \<Longrightarrow> 1 \<le> digits F \<Longrightarrow> e = 0"
  by (auto simp: is_value_def)

lemma is_value_normal:
  assumes "is_value F (Finite m e)" and "m \<noteq> 0"
  shows "2 ^ (digits F - 1) \<le> \<bar>m\<bar>" and "\<bar>m\<bar> < 2 ^ digits F" and "e \<le> max_exponent F"
    and "min_exponent F \<le> e \<or> 2 ^ nat (min_exponent F - e) dvd m"
  using assms by (auto simp: is_value_def)

lemma round_nearest_exact:
  assumes "format_ok F" and "is_value F (Finite m e)"
  shows "round_nearest F (\<bar>of_int m\<bar> * 2 powi (e - int (digits F))) =
    \<bar>of_int m\<bar> * 2 powi (e - int (digits F))"
proof (cases "m = 0")
  case True
  then show ?thesis by (simp add: round_nearest_def)
next
  case False
  define p where "p = digits F"
  define M where "M = \<bar>m\<bar>"
  define q :: rat where "q = of_int M * 2 powi (e - int p)"
  have p: "1 \<le> p" using assms(1) by (simp add: format_ok_def p_def)
  have M: "2 ^ (p - 1) \<le> M" "M < 2 ^ p"
    using is_value_normal [OF assms(2) False] by (simp_all add: M_def p_def)
  have e: "frexp_exponent q = e" unfolding q_def using p M by (rule normal_exponent)
  have q0: "q \<noteq> 0" using M(1) by (simp add: q_def) (metis not_le zero_less_numeral zero_less_power less_le_trans less_irrefl)
  define E where "E = max e (min_exponent F)"
  have "\<exists>N. q / 2 powi (E - int p) = of_int N"
  proof (cases "min_exponent F \<le> e")
    case True
    then have "E = e" by (simp add: E_def)
    then have "q / 2 powi (E - int p) = of_int M" by (simp add: q_def)
    then show ?thesis ..
  next
    case False
    then have E: "E = min_exponent F" by (simp add: E_def)
    from False have "2 ^ nat (min_exponent F - e) dvd m"
      using is_value_normal(4) [OF assms(2) \<open>m \<noteq> 0\<close>] by simp
    then have "2 ^ nat (min_exponent F - e) dvd M" by (simp add: M_def)
    then obtain N where N: "M = 2 ^ nat (min_exponent F - e) * N" ..
    have "(2::rat) powi (e - int p) = 2 powi (E - int p) / 2 powi (E - e)"
      by (simp add: pow2_diff)
    moreover have "(2::rat) powi (E - e) = 2 ^ nat (min_exponent F - e)"
      using False by (simp add: E pow2_nat)
    ultimately have "q / 2 powi (E - int p) = of_int N"
      by (simp add: q_def N)
    then show ?thesis ..
  qed
  then obtain N where N: "q / 2 powi (E - int p) = of_int N" ..
  then have "of_int N * 2 powi (E - int p) = q" by (simp add: field_simps)
  then have "round_nearest F q = q"
    using q0 N by (simp add: round_nearest_def e E_def p_def Let_def)
  then show ?thesis by (simp add: q_def M_def p_def)
qed

lemma value_le_fmax:
  assumes "is_value F (Finite m e)" and "m \<noteq> 0"
  shows "\<bar>of_int m\<bar> * 2 powi (e - int (digits F)) \<le> fmax F"
proof -
  have "\<bar>m\<bar> \<le> 2 ^ digits F - 1" using is_value_normal(2) [OF assms] by simp
  then have "(of_int \<bar>m\<bar> :: rat) \<le> of_int (2 ^ digits F - 1)" by (simp only: of_int_le_iff)
  then have 1: "(\<bar>of_int m\<bar> :: rat) \<le> 2 ^ digits F - 1" by simp
  have 2: "(2::rat) powi (e - int (digits F)) \<le> 2 powi (max_exponent F - int (digits F))"
    using is_value_normal(3) [OF assms] by (intro pow2_mono) simp
  have "\<bar>of_int m\<bar> * 2 powi (e - int (digits F)) \<le>
      (2 ^ digits F - 1) * (2::rat) powi (max_exponent F - int (digits F))"
    using 1 2 by (intro mult_mono) simp_all
  then show ?thesis by (simp add: fmax_def)
qed

lemma to_fvalue_exact:
  assumes "format_ok F" and "is_value F (Finite m e)"
  shows "to_fvalue F (m < 0) (\<bar>of_int m\<bar> * 2 powi (e - int (digits F))) = Finite m e"
proof (cases "m = 0")
  case True
  then show ?thesis
    using assms by (simp add: to_fvalue_def fzero_def is_value_zero format_ok_def)
next
  case False
  define p where "p = digits F"
  define M where "M = \<bar>m\<bar>"
  define q :: rat where "q = of_int M * 2 powi (e - int p)"
  have p: "1 \<le> p" using assms(1) by (simp add: format_ok_def p_def)
  have M: "2 ^ (p - 1) \<le> M" "M < 2 ^ p"
    using is_value_normal [OF assms(2) False] by (simp_all add: M_def p_def)
  have e: "frexp_exponent q = e" unfolding q_def using p M by (rule normal_exponent)
  have q0: "0 < q" using normal_bounds(1) [OF p M, of e] pow2_pos [of "e - 1"]
    unfolding q_def by (rule less_le_trans [rotated])
  have le: "\<not> fmax F < q" using value_le_fmax [OF assms(2) False] by (simp add: q_def M_def p_def)
  have "q * 2 powi (int p - e) = of_int M"
    by (simp add: q_def pow2_add [symmetric])
  then have "to_fvalue F (m < 0) q = Finite (if m < 0 then - M else M) e"
    using q0 le by (simp add: to_fvalue_def e Let_def p_def [symmetric])
  then show ?thesis by (simp add: q_def M_def p_def)
qed

lemma int_to_fp_exact:
  assumes "format_ok F" and "is_value F (Finite m e)"
    and "(of_int n :: rat) = of_int m * 2 powi (e - int (digits F))"
  shows "int_to_fp F n = Some (of_int n)"
proof -
  have a: "\<bar>of_int n :: rat\<bar> = \<bar>of_int m\<bar> * 2 powi (e - int (digits F))"
    by (simp add: assms(3) abs_mult)
  have le: "\<not> fmax F < \<bar>of_int n :: rat\<bar>"
  proof (cases "m = 0")
    case True
    then have "n = 0" using assms(3) by simp
    moreover have "0 \<le> fmax F" by (simp add: fmax_def)
    ultimately show ?thesis by simp
  next
    case False
    then show ?thesis using value_le_fmax [OF assms(2)] by (simp add: a)
  qed
  have "round_nearest F \<bar>of_int n\<bar> = \<bar>of_int n\<bar>"
    unfolding a using assms(1,2) by (rule round_nearest_exact)
  moreover have "(of_int (sgn n) :: rat) * \<bar>of_int n\<bar> = of_int n"
    by (simp add: sgn_if)
  ultimately show ?thesis using le by (simp add: int_to_fp_def)
qed

lemma evaluate_exact:
  assumes "format_ok F" and "is_value F (Finite m e)"
    and "int_to_fp F (numerator r) = Some (of_int (numerator r))"
    and "int_to_fp F (denominator r) = Some (of_int (denominator r))"
    and "0 < denominator r"
    and "(of_int (numerator r) / of_int (denominator r) :: rat) =
      of_int m * 2 powi (e - int (digits F))"
  shows "evaluate F r = Some (Finite m e)"
proof -
  let ?n = "of_int (numerator r) :: rat" and ?d = "of_int (denominator r) :: rat"
  have d: "0 < ?d" using assms(5) by simp
  have v: "\<bar>?n\<bar> / \<bar>?d\<bar> = \<bar>of_int m\<bar> * 2 powi (e - int (digits F))"
    using assms(6) by (simp add: abs_divide [symmetric] abs_mult del: abs_divide)
  have "(?n < 0) = (?n / ?d < 0)" using d by (simp add: divide_less_0_iff)
  also have "\<dots> = (m < 0)" by (simp add: assms(6) mult_less_0_iff)
  finally have s: "((?n < 0) \<noteq> (?d < 0)) = (m < 0)" using d by simp
  have "to_fvalue F ((?n < 0) \<noteq> (?d < 0)) (round_nearest F (\<bar>?n\<bar> / \<bar>?d\<bar>)) = Finite m e"
    unfolding s v round_nearest_exact [OF assms(1,2)] using assms(1,2) by (rule to_fvalue_exact)
  then show ?thesis using d assms(3,4) by (simp add: evaluate_def)
qed

subsection \<open>The exact fraction\<close>

lemma reduce_quotient:
  assumes "d \<noteq> 0"
  shows "(of_int (numerator (reduce n d)) / of_int (denominator (reduce n d)) :: rat) =
    of_int n / of_int d"
proof -
  have "0 < denominator (reduce n d)"
    using reduce_canonical [OF assms, of n] by (simp add: canonical_def)
  moreover have "(of_int (numerator (reduce n d) * d) :: rat) =
      of_int (n * denominator (reduce n d))"
    by (simp only: reduce_value)
  ultimately show ?thesis using assms by (simp add: field_simps)
qed

lemma exp2_cast_Some: "exp2_cast T k = Some c \<Longrightarrow> 0 \<le> k \<Longrightarrow> c = 2 ^ nat k"
  by (auto simp: exp2_cast_def split: if_splits)

lemma pow2_divisor:
  "0 < d \<Longrightarrow> d dvd (2::int) ^ x \<Longrightarrow> \<exists>i\<le>x. d = 2 ^ i"
proof (induction x arbitrary: d)
  case 0
  then have "d = 1" by (simp add: zdvd1_eq)
  then show ?case by simp
next
  case (Suc x)
  show ?case
  proof (cases "even d")
    case True
    then obtain d' where d': "d = 2 * d'" ..
    then have "0 < d'" "d' dvd 2 ^ x" using Suc.prems by simp_all
    then obtain i where "i \<le> x" "d' = 2 ^ i" using Suc.IH by blast
    then have "Suc i \<le> Suc x \<and> d = 2 ^ Suc i" using d' by simp
    then show ?thesis by blast
  next
    case False
    then have "coprime d 2" by simp
    then have "d dvd 2 ^ x" using Suc.prems(2) by (simp add: coprime_dvd_mult_right_iff)
    then obtain i where "i \<le> x" "d = 2 ^ i" using Suc.IH Suc.prems(1) by blast
    then have "i \<le> Suc x \<and> d = 2 ^ i" by simp
    then show ?thesis by blast
  qed
qed

lemma reduce_one: "reduce n 1 = \<lparr>numerator = n, denominator = 1\<rparr>"
  by (simp add: reduce_def)

lemma reduce_cancel:
  assumes "c \<noteq> 0" and "d \<noteq> 0"
  shows "reduce (n * c) (d * c) = reduce n d"
proof (rule canonical_unique)
  define N D where "N = numerator (reduce (n * c) (d * c))"
    and "D = denominator (reduce (n * c) (d * c))"
  define N' D' where "N' = numerator (reduce n d)" and "D' = denominator (reduce n d)"
  show "canonical (reduce (n * c) (d * c))" using assms by (intro reduce_canonical) simp
  show "canonical (reduce n d)" using assms(2) by (rule reduce_canonical)
  have 1: "N * (d * c) = (n * c) * D" unfolding N_def D_def by (rule reduce_value)
  have 2: "N' * d = n * D'" unfolding N'_def D'_def by (rule reduce_value)
  have "(N * D') * (d * c) = (N * (d * c)) * D'" by (simp add: ac_simps)
  also have "\<dots> = ((n * c) * D) * D'" by (simp only: 1)
  also have "\<dots> = (c * D) * (n * D')" by (simp add: ac_simps)
  also have "\<dots> = (c * D) * (N' * d)" by (simp only: 2)
  also have "\<dots> = (N' * D) * (d * c)" by (simp add: ac_simps)
  finally have "N * D' = N' * D" using assms by simp
  then show "numerator (reduce (n * c) (d * c)) * denominator (reduce n d) =
      numerator (reduce n d) * denominator (reduce (n * c) (d * c))"
    by (simp add: N_def D_def N'_def D'_def)
qed

lemma denominator_reduce_dvd: "denominator (reduce n d) dvd d"
proof -
  have "d div gcd n d dvd d" by (metis dvd_div_mult_self dvd_triv_left gcd_dvd2)
  then show ?thesis by (simp add: reduce_def Let_def)
qed

lemma representable_div:
  assumes "representable T x" and "g dvd x" and "0 < g"
  shows "representable T (x div g)"
proof -
  have le: "\<bar>x div g\<bar> \<le> \<bar>x\<bar>" using assms by (simp add: abs_div_le)
  have "is_signed T \<or> 0 \<le> x div g"
    using assms representable_signed [of T x] by (auto simp: div_sign not_le)
  then have "in_range T (x div g)" using in_range_abs_le [OF assms(1) le] by blast
  moreover have "in_range T \<bar>x div g\<bar>"
    using in_range_abs_le [OF assms(1), of "\<bar>x div g\<bar>"] le by simp
  ultimately show ?thesis by (simp add: representable_def)
qed

lemma representable_pos: "in_range T x \<Longrightarrow> 0 \<le> x \<Longrightarrow> representable T x"
  by (simp add: representable_def)

lemma assign_reduce:
  assumes "representable T n" and "representable T d" and "d \<noteq> 0"
  shows "assign T n d r = Returned (reduce n d)"
  using assms canonize_reduce [of T n d] by (simp add: assign_def)

text \<open>On the inputs of \<open>converts_exactly\<close> the function returns, with the exact fraction.\<close>

lemma assign_finite_exact:
  assumes f: "format_ok F" and c: "converts_exactly T F m e"
  shows "assign_finite T F m e r = Returned (exact_fraction F m e)"
proof -
  define k where "k = e - int (digits F)"
  define y where "y = - k - (max_exponent F - 1)"
  have m: "representable T m" and one: "representable T 1"
    using c by (simp_all add: converts_exactly_def Let_def representable_def)
  have t: "fp_to_type T m = Some m" using m by (simp add: fp_to_type_def representable_def)
  consider "0 < k" | "k = 0" | "k < 0" "y < 0" | "k < 0" "0 \<le> y" by linarith
  then show ?thesis
  proof cases
    case 1
    then have h: "k < 1024" "in_range T (2 ^ nat k)" "representable T (m * 2 ^ nat k)"
      using c by (simp_all add: converts_exactly_def Let_def k_def)
    have "exp2_cast T k = Some (2 ^ nat k)" using 1 h by (simp add: exp2_cast_def)
    moreover have "mul T m (2 ^ nat k) = Some (m * 2 ^ nat k)"
      using h(3) by (simp add: mul_in_range representable_def)
    moreover have "assign T (m * 2 ^ nat k) 1 \<lparr>numerator = m * 2 ^ nat k, denominator = 1\<rparr> =
        Returned (reduce (m * 2 ^ nat k) 1)"
      using h(3) one by (intro assign_reduce) simp_all
    ultimately show ?thesis
      using 1 t by (simp add: assign_finite_def exact_fraction_def Let_def k_def [symmetric])
  next
    case 2
    have "assign T m 1 \<lparr>numerator = m, denominator = 1\<rparr> = Returned (reduce m 1)"
      using m one by (intro assign_reduce) simp_all
    then show ?thesis
      using 2 t by (simp add: assign_finite_def exact_fraction_def Let_def k_def [symmetric])
  next
    case 3
    then have h: "- k < 1024" "in_range T (2 ^ nat (- k))"
      using c by (simp_all add: converts_exactly_def Let_def k_def y_def)
    have "exp2_cast T (- k) = Some (2 ^ nat (- k))" using 3 h by (simp add: exp2_cast_def)
    moreover have "mul T 1 (2 ^ nat (- k)) = Some (2 ^ nat (- k))"
      using h(2) mul_in_range [of T 1 "2 ^ nat (- k)"] by simp
    moreover have "assign T m (2 ^ nat (- k)) \<lparr>numerator = m, denominator = 2 ^ nat (- k)\<rparr> =
        Returned (reduce m (2 ^ nat (- k)))"
      using m representable_pos [OF h(2)] by (intro assign_reduce) simp_all
    ultimately show ?thesis
      using 3 t
      by (simp add: assign_finite_def exact_fraction_def Let_def k_def [symmetric] y_def)
  next
    case 4
    define z where "z = max_exponent F - 1"
    have z: "0 \<le> z" using f by (simp add: format_ok_def z_def)
    have h: "y < 1024" "in_range T (2 ^ nat y)" "z < 1024" "in_range T (2 ^ nat z)"
      "m \<noteq> 0" "2 ^ nat y dvd m"
      using c 4 by (simp_all add: converts_exactly_def Let_def k_def y_def z_def)
    define n where "n = m div 2 ^ nat y"
    have mn: "m = n * 2 ^ nat y" using h(6) by (simp add: n_def)
    have n0: "n \<noteq> 0" using h(5) mn by auto
    have rn: "representable T n" unfolding n_def using m h(6) by (intro representable_div) simp_all
    have "exp2_cast T y = Some (2 ^ nat y)" using 4 h by (simp add: exp2_cast_def)
    moreover have "cdiv T m (2 ^ nat y) = Some n"
      unfolding n_def using m h(6) by (intro cdiv_gcd) simp_all
    moreover have "exp2_cast T z = Some (2 ^ nat z)" using z h by (simp add: exp2_cast_def)
    moreover have "mul T 1 (2 ^ nat z) = Some (2 ^ nat z)"
      using h(4) mul_in_range [of T 1 "2 ^ nat z"] by simp
    moreover have "assign T n (2 ^ nat z) \<lparr>numerator = n, denominator = 2 ^ nat z\<rparr> =
        Returned (reduce n (2 ^ nat z))"
      using rn representable_pos [OF h(4)] by (intro assign_reduce) simp_all
    ultimately have a: "assign_finite T F m e r = Returned (reduce n (2 ^ nat z))"
      using 4 t n0
      by (simp add: assign_finite_def Let_def k_def [symmetric] y_def z_def [symmetric])
    have "nat (- k) = nat z + nat y" using 4 z by (simp add: y_def z_def)
    then have "reduce m (2 ^ nat (- k)) = reduce (n * 2 ^ nat y) (2 ^ nat z * 2 ^ nat y)"
      by (simp add: mn power_add)
    also have "\<dots> = reduce n (2 ^ nat z)" by (intro reduce_cancel) simp_all
    finally show ?thesis
      using a 4 by (simp add: exact_fraction_def Let_def k_def [symmetric])
  qed
qed

lemma exact_fraction_canonical: "canonical (exact_fraction F m e)"
  by (simp add: exact_fraction_def Let_def reduce_canonical)

lemma exact_fraction_value:
  "(of_int (numerator (exact_fraction F m e)) / of_int (denominator (exact_fraction F m e)) :: rat) =
    of_int m * 2 powi (e - int (digits F))"
proof (cases "0 \<le> e - int (digits F)")
  case True
  then show ?thesis by (simp add: exact_fraction_def Let_def reduce_one pow2_nat)
next
  case False
  then have "(2::rat) powi (e - int (digits F)) = 1 / 2 ^ nat (- (e - int (digits F)))"
    using power_int_minus_divide [of "2::rat" "- (e - int (digits F))"]
      pow2_nat [of "- (e - int (digits F))"]
    by simp
  then show ?thesis
    using False reduce_quotient [of "2 ^ nat (- (e - int (digits F)))" m]
    by (simp add: exact_fraction_def Let_def)
qed

text \<open>Numerator and denominator of the exact fraction are values of the floating-point
  type: the denominator is a power of two below \<open>2 ^ max_exponent\<close>, the numerator is the
  significand with factors of two taken out or put in.\<close>

lemma int_to_fp_pow2:
  assumes "format_ok F" and "int i < max_exponent F"
  shows "int_to_fp F (2 ^ i) = Some (2 ^ i)"
proof -
  define p where "p = digits F"
  have p: "1 \<le> p" "min_exponent F \<le> 1" using assms(1) by (simp_all add: format_ok_def p_def)
  have "(2::int) ^ (p - 1) < 2 ^ p" using p(1) by (intro power_strict_increasing) simp_all
  then have v: "is_value F (Finite (2 ^ (p - 1)) (int i + 1))"
    using assms(2) p by (simp add: is_value_def p_def)
  have "(2::rat) ^ (p - 1) * 2 powi (int i + 1 - int p) = 2 powi (int (p - 1)) * 2 powi (int i + 1 - int p)"
    by simp
  also have "\<dots> = 2 powi (int i)" using p(1) by (simp add: pow2_add [symmetric] del: power_int_of_nat)
  finally have "(of_int (2 ^ i) :: rat) = of_int (2 ^ (p - 1)) * 2 powi (int i + 1 - int (digits F))"
    by (simp add: p_def)
  from int_to_fp_exact [OF assms(1) v this] show ?thesis by simp
qed

lemma int_to_fp_scaled:
  assumes "format_ok F" and "is_value F (Finite m e)" and "m = n * 2 ^ j"
  shows "int_to_fp F n = Some (of_int n)"
proof (cases "n = 0")
  case True
  have "is_value F (Finite 0 0)" by (simp add: is_value_def)
  from int_to_fp_exact [OF assms(1) this, of 0] show ?thesis using True by simp
next
  case False
  define p where "p = digits F"
  have f: "min_exponent F \<le> 1" "int p \<le> max_exponent F"
    using assms(1) by (simp_all add: format_ok_def p_def)
  have m0: "m \<noteq> 0" using False assms(3) by simp
  have M: "2 ^ (p - 1) \<le> \<bar>m\<bar>" "\<bar>m\<bar> < 2 ^ p"
    using is_value_normal [OF assms(2) m0] by (simp_all add: p_def)
  have "(2::int) ^ j * 1 \<le> 2 ^ j * \<bar>n\<bar>" using False by (intro mult_left_mono) simp_all
  then have "(2::int) ^ j \<le> \<bar>m\<bar>" by (simp add: assms(3) abs_mult mult.commute)
  then have "(2::int) ^ j < 2 ^ p" using M(2) by (rule le_less_trans)
  then have j: "j < p" by (simp add: power_strict_increasing_iff)
  have v: "is_value F (Finite m (int p - int j))"
    using M f j by (simp add: is_value_def p_def)
  have "(of_int m :: rat) * 2 powi (int p - int j - int p) = of_int n * (2 powi (int j) * 2 powi (- int j))"
    by (simp add: assms(3))
  also have "\<dots> = of_int n" by (simp add: pow2_add [symmetric] del: power_int_of_nat)
  finally have "(of_int n :: rat) = of_int m * 2 powi (int p - int j - int (digits F))"
    by (simp add: p_def)
  from int_to_fp_exact [OF assms(1) v this] show ?thesis .
qed

lemma reduce_pow2_parts:
  obtains i where "i \<le> x" and "denominator (reduce n (2 ^ x)) = 2 ^ i"
    and "n = numerator (reduce n (2 ^ x)) * 2 ^ (x - i)"
proof -
  let ?r = "reduce n (2 ^ x)"
  have "canonical ?r" by (intro reduce_canonical) simp
  then have "0 < denominator ?r" by (simp add: canonical_def)
  then obtain i where i: "i \<le> x" "denominator ?r = 2 ^ i"
    using pow2_divisor [OF _ denominator_reduce_dvd [of n "2 ^ x"]] by blast
  have "numerator ?r * 2 ^ x = n * 2 ^ i" using reduce_value [of n "2 ^ x"] by (simp add: i(2))
  moreover have "(2::int) ^ x = 2 ^ (x - i) * 2 ^ i" using i(1) by (simp add: power_add [symmetric])
  ultimately have "(numerator ?r * 2 ^ (x - i)) * 2 ^ i = n * 2 ^ i" by (simp add: mult.assoc)
  then have "n = numerator ?r * 2 ^ (x - i)" by simp
  with i show ?thesis by (rule that)
qed

lemma exact_fraction_parts:
  assumes f: "format_ok F" and v: "is_value F (Finite m e)" and c: "converts_exactly T F m e"
  shows "int_to_fp F (numerator (exact_fraction F m e)) =
      Some (of_int (numerator (exact_fraction F m e)))"
    and "int_to_fp F (denominator (exact_fraction F m e)) =
      Some (of_int (denominator (exact_fraction F m e)))"
proof -
  define k where "k = e - int (digits F)"
  define y where "y = - k - (max_exponent F - 1)"
  define z where "z = max_exponent F - 1"
  have z: "0 \<le> z" using f by (simp add: format_ok_def z_def)
  let ?r = "exact_fraction F m e"
  have "int_to_fp F (numerator ?r) = Some (of_int (numerator ?r))
      \<and> int_to_fp F (denominator ?r) = Some (of_int (denominator ?r))"
  proof -
    consider "0 \<le> k" | "k < 0" "y < 0" | "k < 0" "0 \<le> y" by linarith
    then show ?thesis
    proof cases
      case 1
      then have r: "?r = \<lparr>numerator = m * 2 ^ nat k, denominator = 1\<rparr>"
        by (simp add: exact_fraction_def Let_def k_def [symmetric] reduce_one)
      have "(of_int (m * 2 ^ nat k) :: rat) = of_int m * 2 powi (e - int (digits F))"
        using 1 by (simp add: k_def [symmetric] pow2_nat)
      from int_to_fp_exact [OF f v this]
      have "int_to_fp F (m * 2 ^ nat k) = Some (of_int (m * 2 ^ nat k))" .
      moreover have "int_to_fp F (2 ^ 0) = Some (2 ^ 0)"
        using f by (intro int_to_fp_pow2) (simp_all add: format_ok_def)
      ultimately show ?thesis by (simp add: r)
    next
      case 2
      then have r: "?r = reduce m (2 ^ nat (- k))"
        by (simp add: exact_fraction_def Let_def k_def [symmetric])
      obtain i where i: "i \<le> nat (- k)" "denominator ?r = 2 ^ i"
        "m = numerator ?r * 2 ^ (nat (- k) - i)"
        unfolding r by (rule reduce_pow2_parts)
      have "int i < max_exponent F" using i(1) 2 by (simp add: y_def)
      then have "int_to_fp F (2 ^ i) = Some (2 ^ i)" using f by (intro int_to_fp_pow2)
      moreover have "int_to_fp F (numerator ?r) = Some (of_int (numerator ?r))"
        using f v i(3) by (rule int_to_fp_scaled)
      ultimately show ?thesis by (simp add: i(2))
    next
      case 3
      then have h: "2 ^ nat y dvd m"
        using c by (simp add: converts_exactly_def Let_def k_def y_def)
      define n where "n = m div 2 ^ nat y"
      have mn: "m = n * 2 ^ nat y" using h by (simp add: n_def)
      have "nat (- k) = nat z + nat y" using 3 z by (simp add: y_def z_def)
      then have "reduce m (2 ^ nat (- k)) = reduce (n * 2 ^ nat y) (2 ^ nat z * 2 ^ nat y)"
        by (simp add: mn power_add)
      also have "\<dots> = reduce n (2 ^ nat z)" by (intro reduce_cancel) simp_all
      finally have r: "?r = reduce n (2 ^ nat z)"
        using 3 by (simp add: exact_fraction_def Let_def k_def [symmetric])
      obtain i where i: "i \<le> nat z" "denominator ?r = 2 ^ i"
        "n = numerator ?r * 2 ^ (nat z - i)"
        unfolding r by (rule reduce_pow2_parts)
      have "int i < max_exponent F" using i(1) z by (simp add: z_def)
      then have "int_to_fp F (2 ^ i) = Some (2 ^ i)" using f by (intro int_to_fp_pow2)
      moreover have "m = numerator ?r * 2 ^ (nat z - i + nat y)"
        using mn i(3) by (simp add: power_add)
      then have "int_to_fp F (numerator ?r) = Some (of_int (numerator ?r))"
        using f v by (intro int_to_fp_scaled)
      ultimately show ?thesis by (simp add: i(2))
    qed
  qed
  then show "int_to_fp F (numerator ?r) = Some (of_int (numerator ?r))"
    and "int_to_fp F (denominator ?r) = Some (of_int (denominator ?r))"
    by simp_all
qed

text \<open>
  Claim C2, as stated, fails. In the branch for values near the smallest magnitude the
  numerator is divided by a power of two, and the division truncates: with \<^verbatim>\<open>type = int\<close>
  and a 16-bit binary floating-point type (11 digits, exponents from \<open>-13\<close> to \<open>16\<close>), the value
  \<open>1025 * 2\<^sup>-\<^sup>2\<^sup>4\<close> (significand \<open>1025/2048\<close>, exponent \<open>-13\<close>) becomes \<open>1/16384\<close>, which
  evaluates to \<open>1024 * 2\<^sup>-\<^sup>2\<^sup>4\<close>; with \<^verbatim>\<open>type = unsigned __int128\<close> and \<^verbatim>\<open>float\<close>, the value
  \<open>8388609 * 2\<^sup>-\<^sup>1\<^sup>2\<^sup>8\<close> (exponent \<open>-104\<close>) becomes \<open>1/2\<^sup>1\<^sup>0\<^sup>5\<close>, which evaluates to
  \<open>8388608 * 2\<^sup>-\<^sup>1\<^sup>2\<^sup>8\<close>. Where the power of two does not fit the base type the conversion to
  it is undefined: with \<^verbatim>\<open>type = long long\<close> and \<^verbatim>\<open>double\<close>, the value \<open>2\<^sup>-\<^sup>1\<^sup>0\<^sup>0\<close> (significand
  \<open>1/2\<close>, exponent \<open>-99\<close>) needs the denominator \<open>2\<^sup>1\<^sup>5\<^sup>2\<close>. And negative zero, a finite input
  whose fraction \<open>0/1\<close> is exact, comes back as positive zero.
\<close>

theorem float_round_trip_fails:
  "is_value float16_t (Finite 1025 (- 13))
   \<and> rational_ctor_float int_t float16_t (Finite 1025 (- 13)) =
       Returned \<lparr>numerator = 1, denominator = 16384\<rparr>
   \<and> evaluate float16_t \<lparr>numerator = 1, denominator = 16384\<rparr> = Some (Finite 1024 (- 13))
   \<and> is_value float_t (Finite 8388609 (- 104))
   \<and> rational_ctor_float uint128_t float_t (Finite 8388609 (- 104)) =
       Returned \<lparr>numerator = 1, denominator = 40564819207303340847894502572032\<rparr>
   \<and> evaluate float_t \<lparr>numerator = 1, denominator = 40564819207303340847894502572032\<rparr> =
       Some (Finite 8388608 (- 104))
   \<and> is_value double_t (Finite 4503599627370496 (- 99))
   \<and> rational_ctor_float long_long_t double_t (Finite 4503599627370496 (- 99)) = Undefined
   \<and> is_value double_t Negative_zero
   \<and> rational_ctor_float long_long_t double_t Negative_zero =
       Returned \<lparr>numerator = 0, denominator = 1\<rparr>
   \<and> evaluate double_t \<lparr>numerator = 0, denominator = 1\<rparr> = Some (Finite 0 0)"
proof -
  have 1: "is_value float16_t (Finite 1025 (- 13))"
    by (simp add: is_value_def float16_t_def)
  have 2: "rational_ctor_float int_t float16_t (Finite 1025 (- 13)) =
      Returned \<lparr>numerator = 1, denominator = 16384\<rparr>"
    by code_simp
  have 3: "evaluate float16_t \<lparr>numerator = 1, denominator = 16384\<rparr> =
      Some (Finite 1024 (- 13))"
    by code_simp
  have 4: "is_value float_t (Finite 8388609 (- 104))"
    by (simp add: is_value_def float_t_def)
  have 5: "rational_ctor_float uint128_t float_t (Finite 8388609 (- 104)) =
      Returned \<lparr>numerator = 1, denominator = 40564819207303340847894502572032\<rparr>"
    by code_simp
  have 6: "evaluate float_t \<lparr>numerator = 1, denominator = 40564819207303340847894502572032\<rparr> =
      Some (Finite 8388608 (- 104))"
    by code_simp
  have 7: "is_value double_t (Finite 4503599627370496 (- 99))"
    by (simp add: is_value_def double_t_def)
  have 8: "rational_ctor_float long_long_t double_t (Finite 4503599627370496 (- 99)) =
      Undefined"
    by code_simp
  have 9: "is_value double_t Negative_zero"
    by (simp add: is_value_def)
  have 10: "rational_ctor_float long_long_t double_t Negative_zero =
      Returned \<lparr>numerator = 0, denominator = 1\<rparr>"
    by code_simp
  have 11: "evaluate double_t \<lparr>numerator = 0, denominator = 1\<rparr> = Some (Finite 0 0)"
    by code_simp
  show ?thesis using 1 2 3 4 5 6 7 8 9 10 11 by blast
qed

text \<open>
  Claim C2, amended. For every finite input other than negative zero, a value \<open>Finite m e\<close> of
  the floating-point type, whose conversions and products in the construction are values of
  the base type and which, in the branch for values near the smallest magnitude, is not zero
  and has a scaled significand that the power of two it is divided by divides (the inputs of
  \<open>converts_exactly\<close>): the construction returns, the rational constructed is in canonical
  form and is the exact binary fraction of the input, and evaluating it back into the same
  floating-point type reproduces the input bit for bit, the same significand and the same
  exponent.
\<close>

theorem float_round_trip_exact:
  assumes "format_ok F" and "is_value F (Finite m e)" and "converts_exactly T F m e"
  shows "rational_ctor_float T F (Finite m e) = Returned (exact_fraction F m e)
       \<and> canonical (exact_fraction F m e)
       \<and> Some (of_int (numerator (exact_fraction F m e)) /
               of_int (denominator (exact_fraction F m e))) = fvalue_of F (Finite m e)
       \<and> evaluate F (exact_fraction F m e) = Some (Finite m e)"
proof -
  let ?r = "exact_fraction F m e"
  have 1: "rational_ctor_float T F (Finite m e) = Returned ?r"
    using assign_finite_exact [OF assms(1,3)]
    by (simp add: rational_ctor_float_def assign_float_def)
  have 2: "canonical ?r" by (rule exact_fraction_canonical)
  have 3: "Some (of_int (numerator ?r) / of_int (denominator ?r)) = fvalue_of F (Finite m e)"
    by (simp only: exact_fraction_value fvalue_of_Finite)
  have "0 < denominator ?r" using 2 by (simp add: canonical_def)
  then have 4: "evaluate F ?r = Some (Finite m e)"
    using assms(1,2) exact_fraction_parts [OF assms] exact_fraction_value
    by (intro evaluate_exact)
  show ?thesis using 1 2 3 4 by blast
qed

theorem float_round_trip_exact_witness:
  "rational_ctor_float long_long_t double_t (Finite 6755399441055744 (- 1)) =
     Returned \<lparr>numerator = 3, denominator = 8\<rparr>
   \<and> canonical \<lparr>numerator = 3, denominator = 8\<rparr>
   \<and> Some (3 / 8) = fvalue_of double_t (Finite 6755399441055744 (- 1))
   \<and> evaluate double_t \<lparr>numerator = 3, denominator = 8\<rparr> =
       Some (Finite 6755399441055744 (- 1))
   \<and> rational_ctor_float uint128_t float_t (Finite 8388608 (- 104)) =
       Returned \<lparr>numerator = 1, denominator = 40564819207303340847894502572032\<rparr>
   \<and> evaluate float_t \<lparr>numerator = 1, denominator = 40564819207303340847894502572032\<rparr> =
       Some (Finite 8388608 (- 104))"
proof -
  let ?r = "\<lparr>numerator = 3, denominator = 8\<rparr>"
  let ?s = "\<lparr>numerator = 1, denominator = 40564819207303340847894502572032\<rparr>"
  have f: "format_ok double_t" "format_ok float_t"
    by (simp_all add: format_ok_def double_t_def float_t_def)
  have v: "is_value double_t (Finite 6755399441055744 (- 1))"
    by (simp add: is_value_def double_t_def)
  have c: "converts_exactly long_long_t double_t 6755399441055744 (- 1)"
    by code_simp
  have x: "exact_fraction double_t 6755399441055744 (- 1) = ?r"
    by code_simp
  have 1: "rational_ctor_float long_long_t double_t (Finite 6755399441055744 (- 1)) =
      Returned ?r
    \<and> canonical ?r
    \<and> Some (3 / 8) = fvalue_of double_t (Finite 6755399441055744 (- 1))
    \<and> evaluate double_t ?r = Some (Finite 6755399441055744 (- 1))"
    using float_round_trip_exact [OF f(1) v c] by (simp add: x)
  have w: "is_value float_t (Finite 8388608 (- 104))"
    by (simp add: is_value_def float_t_def)
  have d: "converts_exactly uint128_t float_t 8388608 (- 104)"
    by code_simp
  have y: "exact_fraction float_t 8388608 (- 104) = ?s"
    by code_simp
  have 2: "rational_ctor_float uint128_t float_t (Finite 8388608 (- 104)) = Returned ?s
    \<and> evaluate float_t ?s = Some (Finite 8388608 (- 104))"
    using float_round_trip_exact [OF f(2) w d] by (simp add: y)
  show ?thesis using 1 2 by blast
qed

section \<open>The state of the object after a domain error\<close>

text \<open>Every mutating member but the assignment from a finite floating-point value checks
  before it writes: when it throws, the object is as it was. This includes \<^verbatim>\<open>/=\<close> with the
  object itself as the operand.\<close>

lemma domain_error_leaves_state:
  assumes "mutate T F op r = Throws e r'" and "\<forall>v. op = Assign_float v \<longrightarrow> v = Not_finite"
  shows "r' = r"
proof (cases op)
  case (Assign_float v)
  then have "v = Not_finite" using assms(2) by simp
  then show ?thesis using assms(1) Assign_float by (simp add: assign_float_def)
qed (use assms(1) in \<open>auto simp: operator_assign_int_def operator_add_assign_def
      operator_sub_assign_def operator_mul_assign_def operator_div_assign_def
      operator_add_assign_int_def operator_sub_assign_int_def operator_mul_assign_int_def
      operator_div_assign_int_def operator_pre_inc_def operator_pre_dec_def
      operator_post_inc_def operator_post_dec_def numerator_set_def denominator_set_def
      assign_def split: if_splits\<close>)

text \<open>
  Claim C3 does not hold of \<^verbatim>\<open>assign\<close> from a floating-point value. The member computes in
  \<^verbatim>\<open>numerator_\<close> and \<^verbatim>\<open>denominator_\<close> themselves, and the check for a numerator that has
  become zero comes after both are written. With \<^verbatim>\<open>type = int\<close> and a 16-bit binary
  floating-point type (11 digits, maximal exponent 16), assigning the least positive value
  \<open>2\<^sup>-\<^sup>2\<^sup>4\<close> (significand \<open>1/2\<close>, exponent \<open>-23\<close>) to the rational \<open>1/2\<close> throws and leaves
  \<open>0/32768\<close> in the object, which is not even in canonical form. With
  \<^verbatim>\<open>type = unsigned __int128\<close> and \<^verbatim>\<open>float\<close>, assigning the least positive value
  \<open>2\<^sup>-\<^sup>1\<^sup>4\<^sup>9\<close> (significand \<open>1/2\<close>, exponent \<open>-148\<close>) throws and leaves \<open>0/2\<^sup>1\<^sup>2\<^sup>7\<close>.
\<close>

theorem assign_float_underflow_mutates:
  "mutate int_t float16_t (Assign_float (Finite 1024 (- 23)))
     \<lparr>numerator = 1, denominator = 2\<rparr> =
   Throws Value_too_small \<lparr>numerator = 0, denominator = 32768\<rparr>
   \<and> mutate uint128_t float_t (Assign_float (Finite 8388608 (- 148)))
     \<lparr>numerator = 1, denominator = 2\<rparr> =
   Throws Value_too_small
     \<lparr>numerator = 0, denominator = 170141183460469231731687303715884105728\<rparr>"
proof -
  have "mutate int_t float16_t (Assign_float (Finite 1024 (- 23)))
      \<lparr>numerator = 1, denominator = 2\<rparr> =
    Throws Value_too_small \<lparr>numerator = 0, denominator = 32768\<rparr>"
    by code_simp
  moreover have "mutate uint128_t float_t (Assign_float (Finite 8388608 (- 148)))
      \<lparr>numerator = 1, denominator = 2\<rparr> =
    Throws Value_too_small
      \<lparr>numerator = 0, denominator = 170141183460469231731687303715884105728\<rparr>"
    by code_simp
  ultimately show ?thesis by simp
qed

section \<open>The invert operator\<close>

text \<open>
  Claim C4, as stated, fails: \<^verbatim>\<open>operator~\<close> returns \<^verbatim>\<open>{denominator_, numerator_}\<close>, which
  is built by the two-argument constructor, and the constructor checks its denominator.
  Inverting \<open>0/1\<close> throws.
\<close>

theorem invert_zero_numerator_throws:
  "operator_invert int_t \<lparr>numerator = 0, denominator = 1\<rparr> =
     Throws Denominator_zero \<lparr>numerator = 1, denominator = 0\<rparr>"
  by (simp add: operator_invert_def rational_ctor_def)

text \<open>
  Claim C4, amended. The invert operator builds its result with the two-argument
  constructor from the old denominator and the old numerator. On a rational whose numerator
  is zero it therefore fails with the domain error of a zero denominator, at the point of
  the operation. On a canonical rational \<open>n/d\<close> with \<open>n \<noteq> 0\<close>, both parts representable, it
  returns the reciprocal in canonical form: \<open>d/n\<close> for positive \<open>n\<close>, \<open>(-d)/(-n)\<close> for
  negative \<open>n\<close>.
\<close>

theorem operator_invert_validates:
  "(numerator r = 0 \<longrightarrow>
      operator_invert T r =
        Throws Denominator_zero \<lparr>numerator = denominator r, denominator = 0\<rparr>)
   \<and> (canonical r \<and> numerator r \<noteq> 0 \<and> representable T (numerator r)
        \<and> representable T (denominator r) \<longrightarrow>
      operator_invert T r =
        Returned \<lparr>numerator = sgn (numerator r) * denominator r,
                  denominator = \<bar>numerator r\<bar>\<rparr>
      \<and> canonical \<lparr>numerator = sgn (numerator r) * denominator r,
                    denominator = \<bar>numerator r\<bar>\<rparr>)"
proof (intro conjI impI)
  assume "numerator r = 0"
  then show "operator_invert T r =
      Throws Denominator_zero \<lparr>numerator = denominator r, denominator = 0\<rparr>"
    by (simp add: operator_invert_def rational_ctor_def)
next
  assume a: "canonical r \<and> numerator r \<noteq> 0 \<and> representable T (numerator r)
      \<and> representable T (denominator r)"
  define n where "n = numerator r"
  define d where "d = denominator r"
  have c: "coprime d n" and d: "0 < d" and n: "n \<noteq> 0"
    using a by (simp_all add: canonical_def n_def d_def coprime_iff_gcd_eq_1 gcd.commute)
  have g: "gcd d n = 1" using c by (simp add: coprime_iff_gcd_eq_1)
  have red: "reduce d n = \<lparr>numerator = sgn n * d, denominator = \<bar>n\<bar>\<rparr>"
    using n by (auto simp: reduce_def g Let_def sgn_if)
  have "canonize T \<lparr>numerator = d, denominator = n\<rparr> = Some (reduce d n)"
    using a n by (intro canonize_reduce) (simp_all add: n_def d_def)
  then show "operator_invert T r =
      Returned \<lparr>numerator = sgn (numerator r) * denominator r, denominator = \<bar>numerator r\<bar>\<rparr>"
    using n red by (simp add: operator_invert_def rational_ctor_def n_def [symmetric] d_def [symmetric])
  have "canonical (reduce d n)" using n by (rule reduce_canonical)
  then show "canonical \<lparr>numerator = sgn (numerator r) * denominator r, denominator = \<bar>numerator r\<bar>\<rparr>"
    unfolding red by (simp add: n_def d_def)
qed

theorem operator_invert_validates_witness:
  "operator_invert int_t \<lparr>numerator = 0, denominator = 5\<rparr> =
     Throws Denominator_zero \<lparr>numerator = 5, denominator = 0\<rparr>
   \<and> operator_invert int_t \<lparr>numerator = - 2, denominator = 3\<rparr> =
     Returned \<lparr>numerator = - 3, denominator = 2\<rparr>
   \<and> canonical \<lparr>numerator = - 3, denominator = 2\<rparr>"
proof -
  have h: "canonical \<lparr>numerator = - 2, denominator = 3\<rparr>
      \<and> numerator \<lparr>numerator = - 2, denominator = 3\<rparr> \<noteq> 0
      \<and> representable int_t (numerator \<lparr>numerator = - 2, denominator = 3\<rparr>)
      \<and> representable int_t (denominator \<lparr>numerator = - 2, denominator = 3\<rparr>)"
    by (simp add: canonical_def representable_def in_range_def tmin_def tmax_def int_t_def)
  show ?thesis
    using operator_invert_validates [of "\<lparr>numerator = 0, denominator = 5\<rparr>" int_t]
      operator_invert_validates [of "\<lparr>numerator = - 2, denominator = 3\<rparr>" int_t] h
    by simp
qed

section \<open>Zero denominators and division by zero\<close>

text \<open>
  Claim C5. A zero denominator given to the two-argument constructor, to the denominator
  setter or to \<^verbatim>\<open>assign\<close>, a division by a rational whose numerator is zero (another object
  or the object itself) and a division by the integer zero each end in
  \<^verbatim>\<open>std::domain_error\<close>, whatever the base type and the other arguments are; no value is
  returned and the object is left as it was. In particular \<^verbatim>\<open>rational(1, 0)\<close> throws.
\<close>

theorem zero_denominator_domain_error:
  "rational_ctor T n 0 = Throws Denominator_zero \<lparr>numerator = n, denominator = 0\<rparr>
   \<and> denominator_set T 0 r = Throws Denominator_zero r
   \<and> assign T n 0 r = Throws Denominator_zero r
   \<and> operator_div_assign T (Other_object \<lparr>numerator = 0, denominator = d\<rparr>) r =
       Throws Division_by_zero r
   \<and> operator_div_assign T This_object (r\<lparr>numerator := 0\<rparr>) =
       Throws Division_by_zero (r\<lparr>numerator := 0\<rparr>)
   \<and> operator_div_assign_int T 0 r = Throws Division_by_zero r
   \<and> mutate T F (Set_denominator 0) r = Throws Denominator_zero r
   \<and> mutate T F (Assign n 0) r = Throws Denominator_zero r
   \<and> mutate T F (Div_assign (Other_object \<lparr>numerator = 0, denominator = d\<rparr>)) r =
       Throws Division_by_zero r
   \<and> mutate T F (Div_assign This_object) (r\<lparr>numerator := 0\<rparr>) =
       Throws Division_by_zero (r\<lparr>numerator := 0\<rparr>)
   \<and> mutate T F (Div_assign_int 0) r = Throws Division_by_zero r
   \<and> rational_ctor int_t 1 0 = Throws Denominator_zero \<lparr>numerator = 1, denominator = 0\<rparr>"
  by (simp add: rational_ctor_def denominator_set_def assign_def operator_div_assign_def
      operator_div_assign_int_def)

section \<open>Addition\<close>

lemma arith_unsigned:
  "\<not> is_signed T \<Longrightarrow> wraps T \<Longrightarrow> arith T x = Some (x mod 2 ^ bits T)"
  by (auto simp: arith_def wrap_def in_range_def tmin_def tmax_def)

lemma operator_add_assign_exact:
  assumes "in_range T (a * d)" and "in_range T (b * c)"
    and "representable T (a * d + b * c)" and "representable T (b * d)" and "b * d \<noteq> 0"
  shows "operator_add_assign T \<lparr>numerator = c, denominator = d\<rparr>
           \<lparr>numerator = a, denominator = b\<rparr> = Returned (reduce (a * d + b * c) (b * d))"
proof -
  have s: "in_range T (a * d + b * c)" and p: "in_range T (b * d)"
    using assms(3,4) by (simp_all add: representable_def)
  have "canonize T \<lparr>numerator = a * d + b * c, denominator = b * d\<rparr> =
      Some (reduce (a * d + b * c) (b * d))"
    using assms(3,4,5) by (intro canonize_reduce) simp_all
  then show ?thesis
    using assms(1,2) s p
    by (simp add: operator_add_assign_def mul_in_range add_in_range)
qed

lemma operator_add_assign_unsigned:
  assumes "\<not> is_signed T" and "wraps T"
  shows "operator_add_assign T \<lparr>numerator = c, denominator = d\<rparr>
           \<lparr>numerator = a, denominator = b\<rparr> =
         finish (canonize T \<lparr>numerator = (a * d + b * c) mod 2 ^ bits T,
                             denominator = (b * d) mod 2 ^ bits T\<rparr>)"
  using assms
  by (simp add: operator_add_assign_def mul_def add_def arith_unsigned mod_add_eq)

lemma operator_add_assign_returned:
  assumes "\<not> wraps T"
    and "operator_add_assign T \<lparr>numerator = c, denominator = d\<rparr>
           \<lparr>numerator = a, denominator = b\<rparr> = Returned r'"
  shows "r' = reduce (a * d + b * c) (b * d)"
proof -
  have "no_wrap T = T" using assms(1) by (rule no_wrap_id)
  then have "operator_add_assign (no_wrap T) \<lparr>numerator = c, denominator = d\<rparr>
      \<lparr>numerator = a, denominator = b\<rparr> = Returned r'"
    using assms(2) by simp
  from operator_add_assign_no_wrapD [OF this] show ?thesis by simp
qed

text \<open>
  Claim C6. Addition of \<open>c/d\<close> to \<open>a/b\<close> computes the raw combination
  \<open>(a * d + b * c) / (b * d)\<close> and canonizes it. Where the two products, their sum and the
  product of the denominators are values of the base type, the call returns \<open>reduce\<close> of the
  raw combination, which is in canonical form and has the value of the raw combination. In
  a type that does not wrap around (the signed types), whatever the call returns is
  \<open>reduce\<close> of the raw combination; in an unsigned type the raw combination is computed
  modulo \<open>2 ^ bits\<close> for every pair and then canonized. \<^verbatim>\<open>rational(1, 3)\<close> plus
  \<^verbatim>\<open>rational(1, 6)\<close> is \<open>1/2\<close>.
\<close>

theorem addition_raw_then_canonized:
  "(in_range T (a * d) \<and> in_range T (b * c) \<and> representable T (a * d + b * c)
      \<and> representable T (b * d) \<and> b * d \<noteq> 0 \<longrightarrow>
      operator_add_assign T \<lparr>numerator = c, denominator = d\<rparr>
        \<lparr>numerator = a, denominator = b\<rparr> = Returned (reduce (a * d + b * c) (b * d))
      \<and> canonical (reduce (a * d + b * c) (b * d))
      \<and> numerator (reduce (a * d + b * c) (b * d)) * (b * d) =
          (a * d + b * c) * denominator (reduce (a * d + b * c) (b * d)))
   \<and> (\<not> wraps T \<and> operator_add_assign T \<lparr>numerator = c, denominator = d\<rparr>
        \<lparr>numerator = a, denominator = b\<rparr> = Returned r' \<longrightarrow>
      r' = reduce (a * d + b * c) (b * d))
   \<and> (\<not> is_signed T \<and> wraps T \<longrightarrow>
      operator_add_assign T \<lparr>numerator = c, denominator = d\<rparr>
        \<lparr>numerator = a, denominator = b\<rparr> =
      finish (canonize T \<lparr>numerator = (a * d + b * c) mod 2 ^ bits T,
                          denominator = (b * d) mod 2 ^ bits T\<rparr>))
   \<and> rational_ctor int_t 1 3 = Returned \<lparr>numerator = 1, denominator = 3\<rparr>
   \<and> rational_ctor int_t 1 6 = Returned \<lparr>numerator = 1, denominator = 6\<rparr>
   \<and> operator_add_assign int_t \<lparr>numerator = 1, denominator = 6\<rparr>
        \<lparr>numerator = 1, denominator = 3\<rparr> = Returned \<lparr>numerator = 1, denominator = 2\<rparr>"
proof -
  have c1: "rational_ctor int_t 1 3 = Returned \<lparr>numerator = 1, denominator = 3\<rparr>"
    by code_simp
  have c2: "rational_ctor int_t 1 6 = Returned \<lparr>numerator = 1, denominator = 6\<rparr>"
    by code_simp
  have c3: "operator_add_assign int_t \<lparr>numerator = 1, denominator = 6\<rparr>
      \<lparr>numerator = 1, denominator = 3\<rparr> = Returned \<lparr>numerator = 1, denominator = 2\<rparr>"
    by code_simp
  have c4: "\<not> wraps T \<and> operator_add_assign T \<lparr>numerator = c, denominator = d\<rparr>
        \<lparr>numerator = a, denominator = b\<rparr> = Returned r' \<longrightarrow>
      r' = reduce (a * d + b * c) (b * d)"
    using operator_add_assign_returned [of T c d a b r'] by blast
  have p1: "in_range T (a * d) \<and> in_range T (b * c) \<and> representable T (a * d + b * c)
      \<and> representable T (b * d) \<and> b * d \<noteq> 0 \<longrightarrow>
      operator_add_assign T \<lparr>numerator = c, denominator = d\<rparr>
        \<lparr>numerator = a, denominator = b\<rparr> = Returned (reduce (a * d + b * c) (b * d))
      \<and> canonical (reduce (a * d + b * c) (b * d))
      \<and> numerator (reduce (a * d + b * c) (b * d)) * (b * d) =
          (a * d + b * c) * denominator (reduce (a * d + b * c) (b * d))"
    by (simp add: operator_add_assign_exact reduce_canonical reduce_value)
  have p2: "\<not> is_signed T \<and> wraps T \<longrightarrow>
      operator_add_assign T \<lparr>numerator = c, denominator = d\<rparr>
        \<lparr>numerator = a, denominator = b\<rparr> =
      finish (canonize T \<lparr>numerator = (a * d + b * c) mod 2 ^ bits T,
                          denominator = (b * d) mod 2 ^ bits T\<rparr>)"
    by (simp add: operator_add_assign_unsigned)
  show ?thesis
    using p1 c4 p2 c1 c2 c3 by (intro conjI)
qed

theorem addition_raw_then_canonized_witness:
  "operator_add_assign int_t \<lparr>numerator = 1, denominator = 4\<rparr>
     \<lparr>numerator = 5, denominator = 12\<rparr> = Returned \<lparr>numerator = 2, denominator = 3\<rparr>
   \<and> canonical \<lparr>numerator = 2, denominator = 3\<rparr>
   \<and> operator_add_assign unsigned_t \<lparr>numerator = 1, denominator = 65536\<rparr>
     \<lparr>numerator = 1, denominator = 65537\<rparr> =
     finish (canonize unsigned_t \<lparr>numerator = 131073, denominator = 65536\<rparr>)"
proof -
  have h: "in_range int_t (5 * 4) \<and> in_range int_t (12 * 1) \<and> representable int_t (5 * 4 + 12 * 1)
      \<and> representable int_t (12 * 4) \<and> (12::int) * 4 \<noteq> 0"
    by (simp add: representable_def in_range_def tmin_def tmax_def int_t_def)
  have r: "reduce (5 * 4 + 12 * 1) (12 * 4) = \<lparr>numerator = 2, denominator = 3\<rparr>"
    by code_simp
  have u: "\<not> is_signed unsigned_t \<and> wraps unsigned_t"
    by (simp add: unsigned_t_def)
  have m: "((1::int) * 65536 + 65537 * 1) mod 2 ^ bits unsigned_t = 131073"
    "((65537::int) * 65536) mod 2 ^ bits unsigned_t = 65536"
    by (simp_all add: unsigned_t_def)
  have 1: "operator_add_assign int_t \<lparr>numerator = 1, denominator = 4\<rparr>
      \<lparr>numerator = 5, denominator = 12\<rparr> = Returned (reduce (5 * 4 + 12 * 1) (12 * 4))
    \<and> canonical (reduce (5 * 4 + 12 * 1) (12 * 4))"
    using addition_raw_then_canonized
      [where T = int_t and a = 5 and d = 4 and b = 12 and c = 1 and r' = "reduce 0 1"] h
    by blast
  have 2: "operator_add_assign unsigned_t \<lparr>numerator = 1, denominator = 65536\<rparr>
      \<lparr>numerator = 1, denominator = 65537\<rparr> =
    finish (canonize unsigned_t
      \<lparr>numerator = (1 * 65536 + 65537 * 1) mod 2 ^ bits unsigned_t,
        denominator = (65537 * 65536) mod 2 ^ bits unsigned_t\<rparr>)"
    using addition_raw_then_canonized
      [where T = unsigned_t and a = 1 and d = 65536 and b = 65537 and c = 1
        and r' = "reduce 0 1"] u
    by blast
  show ?thesis using 1 2 r m by simp
qed

section \<open>Ordering\<close>

lemma cross_in_range_commute: "cross_in_range T a b = cross_in_range T b a"
  by (auto simp: cross_in_range_def mult.commute)

lemma operator_spaceship_exact:
  assumes "canonical a" and "canonical b" and "cross_in_range T a b"
  shows "operator_spaceship T a b =
    Some (three_way (numerator a * denominator b) (denominator a * numerator b))"
proof (cases "operator_eq a b")
  case True
  then show ?thesis
    by (simp add: operator_spaceship_def operator_eq_def three_way_def mult.commute)
next
  case False
  then show ?thesis
    using assms(3)
    by (simp add: operator_spaceship_def cross_in_range_def mul_in_range)
qed

lemma cross_equal_iff:
  assumes "canonical a" and "canonical b"
  shows "numerator a * denominator b = denominator a * numerator b \<longleftrightarrow> operator_eq a b"
proof
  assume "numerator a * denominator b = denominator a * numerator b"
  then have "a = b" using assms by (intro canonical_unique) (simp_all add: mult.commute)
  then show "operator_eq a b" by (simp add: operator_eq_def)
next
  assume "operator_eq a b"
  then show "numerator a * denominator b = denominator a * numerator b"
    by (simp add: operator_eq_def mult.commute)
qed

lemma cross_less_trans:
  fixes na da nb db nc dc :: int
  assumes "0 < da" "0 < db" "0 < dc" and "na * db < da * nb" and "nb * dc < db * nc"
  shows "na * dc < da * nc"
proof -
  have "(na * db) * dc < (da * nb) * dc" using assms(3,4) by (simp add: mult_strict_right_mono)
  moreover have "da * (nb * dc) < da * (db * nc)" using assms(1,5) by (simp add: mult_strict_left_mono)
  ultimately have "db * (na * dc) < db * (da * nc)" by (simp add: mult.assoc mult.left_commute mult.commute)
  then show ?thesis using assms(2) by (simp add: mult_less_cancel_left_pos)
qed

text \<open>
  Claim C7, as stated, fails where a cross product leaves the base type. In
  \<^verbatim>\<open>rational<unsigned int>\<close> the canonical values \<open>65536/1\<close> and \<open>65536/65537\<close> differ, but
  \<open>65536 * 65537\<close> is \<open>65536\<close> modulo \<open>2 ^ 32\<close>, so the three-way comparison answers equal:
  none of \<^verbatim>\<open>a < b\<close>, \<^verbatim>\<open>a == b\<close>, \<^verbatim>\<open>a > b\<close> holds.
\<close>

theorem spaceship_unsigned_no_trichotomy:
  "canonical \<lparr>numerator = 65536, denominator = 1\<rparr>
   \<and> canonical \<lparr>numerator = 65536, denominator = 65537\<rparr>
   \<and> operator_less unsigned_t \<lparr>numerator = 65536, denominator = 1\<rparr>
        \<lparr>numerator = 65536, denominator = 65537\<rparr> = Some False
   \<and> operator_eq \<lparr>numerator = 65536, denominator = 1\<rparr>
        \<lparr>numerator = 65536, denominator = 65537\<rparr> = False
   \<and> operator_greater unsigned_t \<lparr>numerator = 65536, denominator = 1\<rparr>
        \<lparr>numerator = 65536, denominator = 65537\<rparr> = Some False"
proof -
  have "gcd (65536::int) 65537 = 1" by code_simp
  moreover have "operator_spaceship unsigned_t \<lparr>numerator = 65536, denominator = 1\<rparr>
      \<lparr>numerator = 65536, denominator = 65537\<rparr> = Some Ord_equal"
    by code_simp
  ultimately show ?thesis
    by (simp add: canonical_def operator_less_def operator_greater_def operator_eq_def)
qed

text \<open>
  Claim C7, amended. The three-way comparison answers equal at once when the two rationals
  are equal member by member, and otherwise compares \<open>numerator\<^sub>1 * denominator\<^sub>2\<close> with
  \<open>denominator\<^sub>1 * numerator\<^sub>2\<close>. On canonical rationals whose cross products are values of
  the base type this is a total order: the answer is the comparison of the exact cross
  products, it is equal only for equal operands, exactly one of \<^verbatim>\<open>a < b\<close>, \<^verbatim>\<open>a == b\<close>,
  \<^verbatim>\<open>a > b\<close> holds, \<^verbatim>\<open>a > b\<close> is \<^verbatim>\<open>b < a\<close>, and \<^verbatim>\<open><\<close> is transitive. In \<^verbatim>\<open>rational<int>\<close>,
  \<open>3/2 > 1/2\<close> and \<open>-3/2 < -1/2\<close>.
\<close>

theorem spaceship_total_order:
  assumes "canonical a" and "canonical b" and "canonical c"
    and "cross_in_range T a b" and "cross_in_range T b c" and "cross_in_range T a c"
  shows "operator_spaceship T a b =
           Some (three_way (numerator a * denominator b) (denominator a * numerator b))
       \<and> (operator_spaceship T a b = Some Ord_equal) = operator_eq a b
       \<and> (operator_less T a b = Some True \<and> \<not> operator_eq a b
              \<and> operator_greater T a b = Some False
           \<or> operator_less T a b = Some False \<and> operator_eq a b
              \<and> operator_greater T a b = Some False
           \<or> operator_less T a b = Some False \<and> \<not> operator_eq a b
              \<and> operator_greater T a b = Some True)
       \<and> operator_greater T a b = operator_less T b a
       \<and> (operator_less T a b = Some True \<and> operator_less T b c = Some True \<longrightarrow>
            operator_less T a c = Some True)
       \<and> operator_greater int_t \<lparr>numerator = 3, denominator = 2\<rparr>
            \<lparr>numerator = 1, denominator = 2\<rparr> = Some True
       \<and> operator_less int_t \<lparr>numerator = - 3, denominator = 2\<rparr>
            \<lparr>numerator = - 1, denominator = 2\<rparr> = Some True"
proof -
  have ab: "operator_spaceship T a b =
      Some (three_way (numerator a * denominator b) (denominator a * numerator b))"
    using assms by (simp add: operator_spaceship_exact)
  have ba: "operator_spaceship T b a =
      Some (three_way (numerator b * denominator a) (denominator b * numerator a))"
    using assms by (simp add: operator_spaceship_exact cross_in_range_commute [of T b a])
  have bc: "operator_spaceship T b c =
      Some (three_way (numerator b * denominator c) (denominator b * numerator c))"
    using assms by (simp add: operator_spaceship_exact)
  have ac: "operator_spaceship T a c =
      Some (three_way (numerator a * denominator c) (denominator a * numerator c))"
    using assms by (simp add: operator_spaceship_exact)
  have eq: "numerator a * denominator b = denominator a * numerator b \<longleftrightarrow> operator_eq a b"
    using assms by (simp add: cross_equal_iff)
  have pos: "0 < denominator a" "0 < denominator b" "0 < denominator c"
    using assms by (simp_all add: canonical_def)
  have 1: "(operator_spaceship T a b = Some Ord_equal) = operator_eq a b"
    using eq by (auto simp: ab three_way_def)
  have 2: "operator_less T a b = Some True \<and> \<not> operator_eq a b
              \<and> operator_greater T a b = Some False
           \<or> operator_less T a b = Some False \<and> operator_eq a b
              \<and> operator_greater T a b = Some False
           \<or> operator_less T a b = Some False \<and> \<not> operator_eq a b
              \<and> operator_greater T a b = Some True"
    using eq by (auto simp: operator_less_def operator_greater_def ab three_way_def)
  have 3: "operator_greater T a b = operator_less T b a"
    by (auto simp: operator_less_def operator_greater_def ab ba three_way_def mult.commute)
  have 4: "operator_less T a b = Some True \<and> operator_less T b c = Some True \<longrightarrow>
      operator_less T a c = Some True"
  proof
    assume h: "operator_less T a b = Some True \<and> operator_less T b c = Some True"
    then have "numerator a * denominator b < denominator a * numerator b"
      and "numerator b * denominator c < denominator b * numerator c"
      by (auto simp: operator_less_def ab bc three_way_def split: if_splits)
    then have "numerator a * denominator c < denominator a * numerator c"
      using pos by (intro cross_less_trans [of "denominator a" "denominator b" "denominator c"])
    then show "operator_less T a c = Some True"
      by (simp add: operator_less_def ac three_way_def)
  qed
  have 5: "operator_greater int_t \<lparr>numerator = 3, denominator = 2\<rparr>
      \<lparr>numerator = 1, denominator = 2\<rparr> = Some True"
    by code_simp
  have 6: "operator_less int_t \<lparr>numerator = - 3, denominator = 2\<rparr>
      \<lparr>numerator = - 1, denominator = 2\<rparr> = Some True"
    by code_simp
  show ?thesis using ab 1 2 3 4 5 6 by blast
qed

theorem spaceship_total_order_witness:
  "operator_spaceship int_t \<lparr>numerator = 1, denominator = 3\<rparr>
     \<lparr>numerator = 1, denominator = 2\<rparr> = Some Ord_less
   \<and> operator_less int_t \<lparr>numerator = 1, denominator = 3\<rparr>
       \<lparr>numerator = 1, denominator = 2\<rparr> = Some True
   \<and> operator_less int_t \<lparr>numerator = 1, denominator = 2\<rparr>
       \<lparr>numerator = 2, denominator = 3\<rparr> = Some True
   \<and> operator_less int_t \<lparr>numerator = 1, denominator = 3\<rparr>
       \<lparr>numerator = 2, denominator = 3\<rparr> = Some True
   \<and> operator_greater int_t \<lparr>numerator = 1, denominator = 3\<rparr>
       \<lparr>numerator = 1, denominator = 2\<rparr> = Some False"
proof -
  let ?a = "\<lparr>numerator = 1, denominator = 3\<rparr>"
  let ?b = "\<lparr>numerator = 1, denominator = 2\<rparr>"
  let ?c = "\<lparr>numerator = 2, denominator = 3\<rparr>"
  have c: "canonical ?a" "canonical ?b" "canonical ?c"
    by (simp_all add: canonical_def)
  have r: "cross_in_range int_t ?a ?b" "cross_in_range int_t ?b ?c" "cross_in_range int_t ?a ?c"
    by (simp_all add: cross_in_range_def in_range_def tmin_def tmax_def int_t_def)
  have l: "operator_less int_t ?a ?b = Some True" "operator_less int_t ?b ?c = Some True"
    by code_simp+
  show ?thesis
    using spaceship_total_order [OF c r] l
    by (simp add: three_way_def operator_eq_def)
qed

section \<open>Division followed by multiplication\<close>


lemma rational_update_both:
  "(r::rational)\<lparr>numerator := n, denominator := d\<rparr> = \<lparr>numerator = n, denominator = d\<rparr>"
  by (cases r) simp



text \<open>When the divisor is the object divided, \<^verbatim>\<open>x /= x\<close>, the second product reads the
  numerator that the first has already overwritten: the quotient of a canonical \<open>n / d\<close> by
  itself is \<open>1 / d\<close>, not one.\<close>

lemma operator_div_assign_self:
  assumes "canonical r" and "numerator r \<noteq> 0"
    and "representable T (numerator r * denominator r)"
    and "representable T (denominator r * (numerator r * denominator r))"
  shows "operator_div_assign T This_object r =
    Returned \<lparr>numerator = 1, denominator = denominator r\<rparr>"
proof -
  let ?n = "numerator r" and ?d = "denominator r"
  let ?q = "reduce (?n * ?d) (?d * (?n * ?d))"
  have d: "0 < ?d" using assms(1) by (simp add: canonical_def)
  have nz: "?d * (?n * ?d) \<noteq> 0" using d assms(2) by simp
  have r: "in_range T (?n * ?d)" "in_range T (?d * (?n * ?d))"
    using assms(3,4) by (simp_all add: representable_def)
  have "canonize T \<lparr>numerator = ?n * ?d, denominator = ?d * (?n * ?d)\<rparr> = Some ?q"
    using assms(3,4) nz by (intro canonize_reduce) simp_all
  then have o: "operator_div_assign T This_object r = Returned ?q"
    using r assms(2) by (simp add: operator_div_assign_def mul_in_range rational_update_both)
  have "numerator ?q * (?d * (?n * ?d)) = (?n * ?d) * denominator ?q"
    by (rule reduce_value)
  then have "(numerator ?q * ?d) * (?n * ?d) = denominator ?q * (?n * ?d)"
    by (simp add: algebra_simps)
  then have v: "numerator ?q * ?d = denominator ?q"
    using d assms(2) by simp
  have "?q = \<lparr>numerator = 1, denominator = ?d\<rparr>"
  proof (rule canonical_unique)
    show "canonical ?q" using nz by (rule reduce_canonical)
    show "canonical \<lparr>numerator = 1, denominator = ?d\<rparr>" using d by (simp add: canonical_def)
    show "numerator ?q * denominator \<lparr>numerator = 1, denominator = ?d\<rparr> =
        numerator \<lparr>numerator = 1, denominator = ?d\<rparr> * denominator ?q"
      using v by simp
  qed
  then show ?thesis using o by simp
qed

lemma operator_div_assign_self_example:
  "operator_div_assign int_t This_object \<lparr>numerator = 2, denominator = 3\<rparr> =
     Returned \<lparr>numerator = 1, denominator = 3\<rparr>"
  by code_simp



section \<open>The power function\<close>

lemma to_type_of_int: "in_range T z \<Longrightarrow> to_type T (of_int z) = Some z"
  by (simp add: to_type_def)

lemma canonical_power:
  assumes "canonical r"
  shows "canonical \<lparr>numerator = numerator r ^ k, denominator = denominator r ^ k\<rparr>"
proof -
  have "coprime (numerator r) (denominator r)" and "0 < denominator r"
    using assms by (simp_all add: canonical_def coprime_iff_gcd_eq_1)
  then have "coprime (numerator r ^ k) (denominator r ^ k)" and "0 < denominator r ^ k"
    by simp_all
  then show ?thesis by (simp add: canonical_def coprime_iff_gcd_eq_1)
qed

text \<open>
  Claim C9, as stated, fails for a negative power, even with a \<^verbatim>\<open>std::pow\<close> that has no
  rounding error: \<^verbatim>\<open>pow(rational<int>(2, 1), -1)\<close> gets \<open>1/2\<close> and \<open>1\<close> from \<^verbatim>\<open>std::pow\<close>,
  converts them to \<^verbatim>\<open>int\<close> and returns \<open>0/1\<close>, whose numerator is not \<open>2\<close> to the power
  \<open>-1\<close>.
\<close>

theorem pow_negative_power_truncates:
  "exact_pow 2 (- 1) = Some (1 / 2)
   \<and> exact_pow 1 (- 1) = Some 1
   \<and> pow int_t exact_pow \<lparr>numerator = 2, denominator = 1\<rparr> (- 1) =
       Returned \<lparr>numerator = 0, denominator = 1\<rparr>"
proof -
  have "pow int_t exact_pow \<lparr>numerator = 2, denominator = 1\<rparr> (- 1) =
      Returned \<lparr>numerator = 0, denominator = 1\<rparr>"
    by code_simp
  then show ?thesis by (simp add: exact_pow_def)
qed

text \<open>
  Claim C9, amended. For a canonical rational \<open>n/d\<close> and a power \<open>p \<ge> 0\<close> for which
  \<^verbatim>\<open>std::pow\<close> returns the exact powers \<open>n\<^sup>p\<close> and \<open>d\<^sup>p\<close> and these are representable in the
  base type, \<^verbatim>\<open>pow\<close> returns the rational with numerator \<open>n\<^sup>p\<close> and denominator \<open>d\<^sup>p\<close>, which
  is in canonical form.
\<close>

theorem pow_nonnegative_exact:
  assumes "canonical r" and "0 \<le> p"
    and "std_pow (numerator r) p = Some (of_int (numerator r ^ nat p))"
    and "std_pow (denominator r) p = Some (of_int (denominator r ^ nat p))"
    and "representable T (numerator r ^ nat p)"
    and "representable T (denominator r ^ nat p)"
  shows "pow T std_pow r p =
           Returned \<lparr>numerator = numerator r ^ nat p, denominator = denominator r ^ nat p\<rparr>
       \<and> canonical \<lparr>numerator = numerator r ^ nat p, denominator = denominator r ^ nat p\<rparr>"
proof -
  let ?n = "numerator r ^ nat p" and ?d = "denominator r ^ nat p"
  have c: "canonical \<lparr>numerator = ?n, denominator = ?d\<rparr>"
    using assms(1) by (rule canonical_power)
  have d: "?d \<noteq> 0" using assms(1) by (simp add: canonical_def)
  have "reduce ?n ?d = \<lparr>numerator = ?n, denominator = ?d\<rparr>"
    using reduce_canonical_id [OF c] by simp
  then have "canonize T \<lparr>numerator = ?n, denominator = ?d\<rparr> =
      Some \<lparr>numerator = ?n, denominator = ?d\<rparr>"
    using canonize_reduce [OF assms(5,6)] d by simp
  then have "rational_ctor T ?n ?d = Returned \<lparr>numerator = ?n, denominator = ?d\<rparr>"
    using d by (simp add: rational_ctor_def)
  moreover have "to_type T (of_int ?n) = Some ?n" "to_type T (of_int ?d) = Some ?d"
    using assms(5,6) by (simp_all add: to_type_of_int representable_def del: of_int_power)
  ultimately show ?thesis
    using assms(3,4) c by (simp add: pow_def del: of_int_power)
qed

theorem pow_nonnegative_exact_witness:
  "pow int_t exact_pow \<lparr>numerator = - 2, denominator = 3\<rparr> 3 =
     Returned \<lparr>numerator = - 8, denominator = 27\<rparr>
   \<and> canonical \<lparr>numerator = - 8, denominator = 27\<rparr>"
proof -
  let ?r = "\<lparr>numerator = - 2, denominator = 3\<rparr>"
  have g: "gcd (2::int) 3 = 1" by code_simp
  have c: "canonical ?r" using g by (simp add: canonical_def)
  have p: "(0::int) \<le> 3" by simp
  have n: "nat 3 = 3" by simp
  have s: "exact_pow (numerator ?r) 3 = Some (of_int (numerator ?r ^ nat 3))"
    "exact_pow (denominator ?r) 3 = Some (of_int (denominator ?r ^ nat 3))"
    by (simp_all add: exact_pow_def)
  have t: "representable int_t (numerator ?r ^ nat 3)"
    "representable int_t (denominator ?r ^ nat 3)"
    by (simp_all add: representable_def in_range_def tmin_def tmax_def int_t_def)
  show ?thesis
    using pow_nonnegative_exact [of ?r 3 exact_pow int_t, OF c p s t] by simp
qed

section \<open>Increment, decrement and the integer forms of \<^verbatim>\<open>+=\<close> and \<^verbatim>\<open>-=\<close>\<close>

text \<open>
  Claim C10, as stated, fails where the base type is unsigned and the new numerator wraps
  around: decrementing \<open>2/3\<close> in \<^verbatim>\<open>rational<unsigned int>\<close> stores
  \<open>2 - 3 = 4294967295\<close> (modulo \<open>2 ^ 32\<close>), which is not \<open>2\<close> plus a multiple of \<open>3\<close> and
  shares the factor \<open>3\<close> with the denominator.
\<close>

theorem decrement_unsigned_not_canonical:
  "canonical \<lparr>numerator = 2, denominator = 3\<rparr>
   \<and> operator_pre_dec unsigned_t \<lparr>numerator = 2, denominator = 3\<rparr> =
       Returned \<lparr>numerator = 4294967295, denominator = 3\<rparr>
   \<and> \<not> canonical \<lparr>numerator = 4294967295, denominator = 3\<rparr>
   \<and> \<not> (3::int) dvd (4294967295 - 2)"
proof -
  have "operator_pre_dec unsigned_t \<lparr>numerator = 2, denominator = 3\<rparr> =
      Returned \<lparr>numerator = 4294967295, denominator = 3\<rparr>"
    by code_simp
  moreover have "gcd (4294967295::int) 3 = 3" by code_simp
  ultimately show ?thesis by (simp add: canonical_def)
qed

text \<open>
  Claim C10, amended. On a canonical rational \<open>n/d\<close>, whenever the new numerator (and, for
  the integer forms of \<^verbatim>\<open>+=\<close> and \<^verbatim>\<open>-=\<close>, the product of the integer and the denominator) is
  a value of the base type: prefix and postfix increment and decrement store \<open>n + d\<close> and
  \<open>n - d\<close>, \<^verbatim>\<open>+= c\<close> and \<^verbatim>\<open>-= c\<close> store \<open>n + c * d\<close> and \<open>n - c * d\<close>, the denominator is left as
  it is, the postfix forms return the old value, and the result is in canonical form
  although canonize is not run: \<open>n + k * d\<close> over \<open>d\<close> is canonical for every integer \<open>k\<close>.
\<close>

theorem increment_keeps_canonical:
  assumes "canonical r"
  shows "(in_range T (numerator r + denominator r) \<longrightarrow>
            operator_pre_inc T r = Returned (r\<lparr>numerator := numerator r + denominator r\<rparr>)
          \<and> operator_post_inc T r =
              (r, Returned (r\<lparr>numerator := numerator r + denominator r\<rparr>)))
       \<and> (in_range T (numerator r - denominator r) \<longrightarrow>
            operator_pre_dec T r = Returned (r\<lparr>numerator := numerator r - denominator r\<rparr>)
          \<and> operator_post_dec T r =
              (r, Returned (r\<lparr>numerator := numerator r - denominator r\<rparr>)))
       \<and> (in_range T (c * denominator r) \<and> in_range T (numerator r + c * denominator r) \<longrightarrow>
            operator_add_assign_int T c r =
              Returned (r\<lparr>numerator := numerator r + c * denominator r\<rparr>))
       \<and> (in_range T (c * denominator r) \<and> in_range T (numerator r - c * denominator r) \<longrightarrow>
            operator_sub_assign_int T c r =
              Returned (r\<lparr>numerator := numerator r - c * denominator r\<rparr>))
       \<and> (\<forall>k. canonical (r\<lparr>numerator := numerator r + k * denominator r\<rparr>)
              \<and> denominator (r\<lparr>numerator := numerator r + k * denominator r\<rparr>) = denominator r)"
  using assms
  by (simp add: operator_pre_inc_def operator_post_inc_def operator_pre_dec_def
      operator_post_dec_def operator_add_assign_int_def operator_sub_assign_int_def
      add_in_range sub_in_range mul_in_range canonical_add_multiple)

theorem increment_keeps_canonical_witness:
  "operator_pre_inc int_t \<lparr>numerator = 2, denominator = 3\<rparr> =
     Returned \<lparr>numerator = 5, denominator = 3\<rparr>
   \<and> operator_post_inc int_t \<lparr>numerator = 2, denominator = 3\<rparr> =
     (\<lparr>numerator = 2, denominator = 3\<rparr>, Returned \<lparr>numerator = 5, denominator = 3\<rparr>)
   \<and> operator_pre_dec int_t \<lparr>numerator = 2, denominator = 3\<rparr> =
     Returned \<lparr>numerator = - 1, denominator = 3\<rparr>
   \<and> operator_post_dec int_t \<lparr>numerator = 2, denominator = 3\<rparr> =
     (\<lparr>numerator = 2, denominator = 3\<rparr>, Returned \<lparr>numerator = - 1, denominator = 3\<rparr>)
   \<and> operator_add_assign_int int_t 4 \<lparr>numerator = 2, denominator = 3\<rparr> =
     Returned \<lparr>numerator = 14, denominator = 3\<rparr>
   \<and> operator_sub_assign_int int_t 4 \<lparr>numerator = 2, denominator = 3\<rparr> =
     Returned \<lparr>numerator = - 10, denominator = 3\<rparr>
   \<and> canonical \<lparr>numerator = 14, denominator = 3\<rparr>"
proof -
  have c: "canonical \<lparr>numerator = 2, denominator = 3\<rparr>"
    by (simp add: canonical_def)
  have h: "in_range int_t (2 + 3)" "in_range int_t (2 - 3)" "in_range int_t (4 * 3)"
    "in_range int_t (2 + 4 * 3)" "in_range int_t (2 - 4 * 3)"
    by (simp_all add: in_range_def tmin_def tmax_def int_t_def)
  have "\<forall>k. canonical (\<lparr>numerator = 2, denominator = 3\<rparr>
      \<lparr>numerator := numerator \<lparr>numerator = 2, denominator = 3\<rparr>
         + k * denominator \<lparr>numerator = 2, denominator = 3\<rparr>\<rparr>)"
    using increment_keeps_canonical [OF c, of int_t 4] by blast
  then have k: "canonical (\<lparr>numerator = 2, denominator = 3\<rparr>
      \<lparr>numerator := numerator \<lparr>numerator = 2, denominator = 3\<rparr>
         + 4 * denominator \<lparr>numerator = 2, denominator = 3\<rparr>\<rparr>)"
    by (rule spec)
  show ?thesis
    using increment_keeps_canonical [OF c, of int_t 4] h k by simp
qed

end
